theory Spec2Isabelle
  imports Main
begin

section \<open>Python string and path operations used by the pipeline\<close>

text \<open>
  Strings are lists of characters, a character being a code point below 256.  The operations below are the ones
  \<^verbatim>\<open>unzip_and_modify_csv.py\<close> applies to object keys: \<^verbatim>\<open>str.endswith\<close>,
  \<^verbatim>\<open>str.replace\<close>, \<^verbatim>\<open>str.split\<close>, \<^verbatim>\<open>str.strip\<close>, slicing from the
  start, \<^verbatim>\<open>os.path.basename\<close> and \<^verbatim>\<open>os.path.join\<close> (POSIX flavour).
\<close>

definition endswith :: "string \<Rightarrow> string \<Rightarrow> bool" where
  "endswith s suf \<longleftrightarrow> length suf \<le> length s \<and> drop (length s - length suf) s = suf"

text \<open>\<^verbatim>\<open>s.replace(old, new)\<close>: every non-overlapping occurrence, leftmost first.\<close>

function replace :: "string \<Rightarrow> string \<Rightarrow> string \<Rightarrow> string" where
  "replace s old new =
     (if old = [] then new @ concat (map (\<lambda>c. c # new) s)
      else if s = [] then []
      else if take (length old) s = old then new @ replace (drop (length old) s) old new
      else hd s # replace (tl s) old new)"
  by pat_completeness auto
termination
  by (relation "measure (\<lambda>(s, old, new). length s)") auto

declare replace.simps [simp del]

text \<open>\<^verbatim>\<open>s.split(sep)\<close> for a one-character separator: never returns an empty list.\<close>

fun split :: "string \<Rightarrow> char \<Rightarrow> string list" where
  "split [] sep = [[]]"
| "split (c # cs) sep =
     (if c = sep then [] # split cs sep
      else (case split cs sep of [] \<Rightarrow> [[c]] | x # xs \<Rightarrow> (c # x) # xs))"

text \<open>
  \<^verbatim>\<open>str.isspace\<close> on the characters of code point below 256, which are the characters
  of the model: tab, line feed, vertical tab, form feed, carriage return, the four
  separators 0x1C..0x1F, the space, the next-line control 0x85 and the no-break space 0xA0.
\<close>

definition isspace :: "char \<Rightarrow> bool" where
  "isspace c \<longleftrightarrow> c \<in> set [CHR 0x09, CHR 0x0A, CHR 0x0B, CHR 0x0C, CHR 0x0D,
                          CHR 0x1C, CHR 0x1D, CHR 0x1E, CHR 0x1F, CHR 0x20, CHR 0x85, CHR 0xA0]"

definition strip :: "string \<Rightarrow> string" where
  "strip s = rev (dropWhile isspace (rev (dropWhile isspace s)))"

text \<open>\<^verbatim>\<open>posixpath.basename\<close>: what follows the last slash.\<close>

definition basename :: "string \<Rightarrow> string" where
  "basename p = rev (takeWhile (\<lambda>c. c \<noteq> CHR ''/'') (rev p))"

text \<open>\<^verbatim>\<open>posixpath.join(a, b)\<close>: an absolute \<open>b\<close> discards \<open>a\<close>.\<close>

definition path_join :: "string \<Rightarrow> string \<Rightarrow> string" where
  "path_join a b =
     (if b \<noteq> [] \<and> hd b = CHR ''/'' then b
      else if a = [] \<or> last a = CHR ''/'' then a @ b
      else a @ ''/'' @ b)"

text \<open>
  Iterating over a file opened in text mode yields its lines; with universal newlines a
  line ends at LF, CR or CR LF.  The terminators are left out here: the only reader strips
  every line.
\<close>

fun readlines :: "string \<Rightarrow> string list" where
  "readlines [] = []"
| "readlines (c # cs) =
     (if c = CHR 0x0D \<and> cs \<noteq> [] \<and> hd cs = CHR 0x0A then [] # readlines (tl cs)
      else if c = CHR 0x0D \<or> c = CHR 0x0A then [] # readlines cs
      else (case readlines cs of [] \<Rightarrow> [[c]] | l # ls \<Rightarrow> (c # l) # ls))"

section \<open>Exceptions, the outside world\<close>

text \<open>The exceptions a step of the pipeline can raise; all are subclasses of \<^verbatim>\<open>Exception\<close>.\<close>

datatype exn =
    ClientError
  | FileNotFoundError
  | BadGzipFile
  | ParserError
  | ValueError string
  | KeyError
  | IndexError

text \<open>
  The calls that leave the process, in the order they were made.  The flag of a transfer
  tells whether it succeeded.
\<close>

datatype event =
    Download string string bool
  | Upload string string bool
  | Delete string bool
  | Sleep nat

text \<open>
  The state the program acts on: the objects of the bucket \<^verbatim>\<open>openaq-sensor-data\<close>, the
  local file system (scratch files and the failure ledger), and the environment's choices:
  \<open>s3_fails n\<close> says whether the \<open>n\<close>-th request to the object store fails, \<open>uuid_src n\<close> is
  the \<open>n\<close>-th identifier \<^verbatim>\<open>uuid.uuid4()\<close> hands out.
\<close>

record world =
  objects :: "string \<rightharpoonup> string"
  files :: "string \<rightharpoonup> string"
  s3_fails :: "nat \<Rightarrow> bool"
  s3_calls :: nat
  uuid_src :: "nat \<Rightarrow> string"
  uuid_calls :: nat
  trace :: "event list"

type_synonym 'a result = "(exn + 'a) \<times> world"

definition uuid4 :: "world \<Rightarrow> string \<times> world" where
  "uuid4 w = (uuid_src w (uuid_calls w), w\<lparr>uuid_calls := Suc (uuid_calls w)\<rparr>)"

definition time_sleep :: "nat \<Rightarrow> world \<Rightarrow> world" where
  "time_sleep delay w = w\<lparr>trace := trace w @ [Sleep delay]\<rparr>"

text \<open>\<^verbatim>\<open>s3.download_file(bucket, key, path)\<close>\<close>

definition download_file :: "string \<Rightarrow> string \<Rightarrow> world \<Rightarrow> unit result" where
  "download_file key path w =
     (case (if s3_fails w (s3_calls w) then None else objects w key) of
        None \<Rightarrow>
          (Inl ClientError,
           w\<lparr>s3_calls := Suc (s3_calls w), trace := trace w @ [Download key path False]\<rparr>)
      | Some body \<Rightarrow>
          (Inr (),
           w\<lparr>files := (files w)(path \<mapsto> body), s3_calls := Suc (s3_calls w),
             trace := trace w @ [Download key path True]\<rparr>))"

text \<open>\<^verbatim>\<open>s3.upload_file(path, bucket, key)\<close>: the local file must exist.\<close>

definition upload_file :: "string \<Rightarrow> string \<Rightarrow> world \<Rightarrow> unit result" where
  "upload_file path key w =
     (case (if s3_fails w (s3_calls w) then None else files w path) of
        None \<Rightarrow>
          (Inl ClientError,
           w\<lparr>s3_calls := Suc (s3_calls w), trace := trace w @ [Upload path key False]\<rparr>)
      | Some body \<Rightarrow>
          (Inr (),
           w\<lparr>objects := (objects w)(key \<mapsto> body), s3_calls := Suc (s3_calls w),
             trace := trace w @ [Upload path key True]\<rparr>))"

text \<open>\<^verbatim>\<open>s3.delete_object(Bucket=bucket, Key=key)\<close>: deleting an absent key succeeds.\<close>

definition delete_object :: "string \<Rightarrow> world \<Rightarrow> unit result" where
  "delete_object key w =
     (if s3_fails w (s3_calls w) then
        (Inl ClientError,
         w\<lparr>s3_calls := Suc (s3_calls w), trace := trace w @ [Delete key False]\<rparr>)
      else
        (Inr (),
         w\<lparr>objects := (objects w)(key := None), s3_calls := Suc (s3_calls w),
           trace := trace w @ [Delete key True]\<rparr>))"

section \<open>The failure ledger\<close>

definition FAILED_LOG :: string where
  "FAILED_LOG = ''/tmp/failed_files.txt''"

definition ledger :: "world \<Rightarrow> string option" where
  "ledger w = files w FAILED_LOG"

text \<open>What the ledger holds; a missing file holds nothing.\<close>

definition ledger_text :: "world \<Rightarrow> string" where
  "ledger_text w = (case files w FAILED_LOG of None \<Rightarrow> [] | Some t \<Rightarrow> t)"

text \<open>Opening in append mode creates the file; one key and a line feed are written.\<close>

definition log_failure :: "string \<Rightarrow> world \<Rightarrow> world" where
  "log_failure file w =
     w\<lparr>files := (files w)(FAILED_LOG \<mapsto> ledger_text w @ file @ [CHR 0x0A])\<rparr>"

text \<open>Opening a missing file for reading raises.\<close>

definition read_log_failure :: "world \<Rightarrow> string list result" where
  "read_log_failure w =
     (case files w FAILED_LOG of
        None \<Rightarrow> (Inl FileNotFoundError, w)
      | Some t \<Rightarrow> (Inr (map strip (readlines t)), w))"

section \<open>The transfer primitive\<close>

text \<open>
  The \<^verbatim>\<open>while attempt < retry\<close> loop of \<^verbatim>\<open>upload_with_retry\<close>.  A successful upload
  breaks out; a failed one counts, then either sleeps and goes round again or, when the
  budget is used up, logs the key.  \<open>retry\<close> and \<open>delay\<close> are a count and a duration.
\<close>

function upload_loop :: "string \<Rightarrow> string \<Rightarrow> nat \<Rightarrow> nat \<Rightarrow> nat \<Rightarrow> world \<Rightarrow> unit result" where
  "upload_loop path file retry delay attempt w =
     (if attempt < retry then
        (case upload_file path file w of
           (Inr u, w1) \<Rightarrow> (Inr (), w1)
         | (Inl e, w1) \<Rightarrow>
             (if Suc attempt < retry
              then upload_loop path file retry delay (Suc attempt) (time_sleep delay w1)
              else upload_loop path file retry delay (Suc attempt) (log_failure file w1)))
      else (Inr (), w))"
  by pat_completeness auto
termination
  by (relation "measure (\<lambda>(path, file, retry, delay, attempt, w). retry - attempt)") auto

declare upload_loop.simps [simp del]

definition upload_with_retry :: "string \<Rightarrow> string \<Rightarrow> nat \<Rightarrow> nat \<Rightarrow> world \<Rightarrow> unit result" where
  "upload_with_retry path file retry delay w = upload_loop path file retry delay 0 w"

section \<open>The file transform unit\<close>

text \<open>
  The libraries the unit calls on file contents are parameters: \<^verbatim>\<open>gzip\<close> decompression,
  \<^verbatim>\<open>pandas.read_csv\<close>, \<^verbatim>\<open>DataFrame.empty\<close>, the reshape (\<^verbatim>\<open>pivot_table\<close>,
  \<^verbatim>\<open>reset_index\<close> and the insertion of the \<^verbatim>\<open>sensor\<close> column, given the location
  identifier) and \<^verbatim>\<open>DataFrame.to_csv\<close>.  Each of the first, second and fourth can raise.
\<close>

record 'df lib =
  gunzip :: "string \<Rightarrow> exn + string"
  read_csv :: "string \<Rightarrow> exn + 'df"
  df_empty :: "'df \<Rightarrow> bool"
  reshape :: "'df \<Rightarrow> string \<Rightarrow> exn + 'df"
  to_csv :: "'df \<Rightarrow> string"

text \<open>The target keys, lines 47 to 52; identifiers and years are given as they print.\<close>

definition file_name_csv :: "string \<Rightarrow> string" where
  "file_name_csv file = replace (basename file) ''.csv.gz'' ''.csv''"

definition wide_key :: "string \<Rightarrow> string \<Rightarrow> string \<Rightarrow> string \<Rightarrow> string" where
  "wide_key city location_id year file =
     path_join (city @ ''/wide/'' @ location_id @ ''/'' @ year @ ''/'') (file_name_csv file)"

definition archive_key :: "string \<Rightarrow> string \<Rightarrow> string \<Rightarrow> string \<Rightarrow> string" where
  "archive_key city location_id year file =
     path_join (city @ ''/archive/'' @ location_id @ ''/'' @ year @ ''/'') (file_name_csv file)"

definition remove_if_exists :: "string \<Rightarrow> world \<Rightarrow> world" where
  "remove_if_exists path w =
     (if files w path \<noteq> None then w\<lparr>files := (files w)(path := None)\<rparr> else w)"

text \<open>
  Lines 57 to 63: download, decompress into the scratch \<^verbatim>\<open>.csv\<close> (created empty before
  the compressed stream is read), parse.
\<close>

definition fetch_gz :: "'df lib \<Rightarrow> string \<Rightarrow> string \<Rightarrow> string \<Rightarrow> world \<Rightarrow> 'df result" where
  "fetch_gz lib file gz_path csv_path w =
     (case download_file file gz_path w of
        (Inl e, w1) \<Rightarrow> (Inl e, w1)
      | (Inr u, w1) \<Rightarrow>
          (case files w1 gz_path of
             None \<Rightarrow> (Inl FileNotFoundError, w1)
           | Some raw \<Rightarrow>
               (let w2 = w1\<lparr>files := (files w1)(csv_path \<mapsto> [])\<rparr> in
                case gunzip lib raw of
                  Inl e \<Rightarrow> (Inl e, w2)
                | Inr text \<Rightarrow>
                    (let w3 = w2\<lparr>files := (files w2)(csv_path \<mapsto> text)\<rparr> in
                     case read_csv lib text of
                       Inl e \<Rightarrow> (Inl e, w3)
                     | Inr df \<Rightarrow> (Inr df, w3)))))"

text \<open>Lines 95 and 96: download straight into the scratch \<^verbatim>\<open>.csv\<close>, parse.\<close>

definition fetch_csv :: "'df lib \<Rightarrow> string \<Rightarrow> string \<Rightarrow> world \<Rightarrow> 'df result" where
  "fetch_csv lib file csv_path w =
     (case download_file file csv_path w of
        (Inl e, w1) \<Rightarrow> (Inl e, w1)
      | (Inr u, w1) \<Rightarrow>
          (case files w1 csv_path of
             None \<Rightarrow> (Inl FileNotFoundError, w1)
           | Some text \<Rightarrow>
               (case read_csv lib text of
                  Inl e \<Rightarrow> (Inl e, w1)
                | Inr df \<Rightarrow> (Inr df, w1))))"

text \<open>
  Lines 65 to 82, repeated as lines 98 to 115: refuse an empty frame, archive, delete the
  source, reshape, write and upload the wide file, delete the source again.
\<close>

definition archive_and_widen ::
  "'df lib \<Rightarrow> 'df \<Rightarrow> string \<Rightarrow> string \<Rightarrow> string \<Rightarrow> string \<Rightarrow> string \<Rightarrow> string \<Rightarrow> world \<Rightarrow> unit result"
where
  "archive_and_widen lib df file location_id csv_path wide_path archive_file wide_file w =
     (if df_empty lib df then (Inl (ValueError (file @ '' is empty, skipping it.'')), w)
      else
        (case upload_with_retry csv_path archive_file 5 2 w of
           (Inl e, w1) \<Rightarrow> (Inl e, w1)
         | (Inr u, w1) \<Rightarrow>
             (case delete_object file w1 of
                (Inl e, w2) \<Rightarrow> (Inl e, w2)
              | (Inr u, w2) \<Rightarrow>
                  (case reshape lib df location_id of
                     Inl e \<Rightarrow> (Inl e, w2)
                   | Inr wide \<Rightarrow>
                       (let w3 = w2\<lparr>files := (files w2)(wide_path \<mapsto> to_csv lib wide)\<rparr> in
                        case upload_with_retry wide_path wide_file 5 2 w3 of
                          (Inl e, w4) \<Rightarrow> (Inl e, w4)
                        | (Inr u, w4) \<Rightarrow> delete_object file w4)))))"

text \<open>The two \<^verbatim>\<open>try\<close> blocks.\<close>

definition try_gz ::
  "'df lib \<Rightarrow> string \<Rightarrow> string \<Rightarrow> string \<Rightarrow> string \<Rightarrow> string \<Rightarrow> string \<Rightarrow> string \<Rightarrow> world \<Rightarrow> unit result"
where
  "try_gz lib file location_id gz_path csv_path wide_path archive_file wide_file w =
     (case fetch_gz lib file gz_path csv_path w of
        (Inl e, w1) \<Rightarrow> (Inl e, w1)
      | (Inr df, w1) \<Rightarrow>
          archive_and_widen lib df file location_id csv_path wide_path archive_file wide_file w1)"

definition try_csv ::
  "'df lib \<Rightarrow> string \<Rightarrow> string \<Rightarrow> string \<Rightarrow> string \<Rightarrow> string \<Rightarrow> string \<Rightarrow> world \<Rightarrow> unit result"
where
  "try_csv lib file location_id csv_path wide_path archive_file wide_file w =
     (case fetch_csv lib file csv_path w of
        (Inl e, w1) \<Rightarrow> (Inl e, w1)
      | (Inr df, w1) \<Rightarrow>
          archive_and_widen lib df file location_id csv_path wide_path archive_file wide_file w1)"

text \<open>\<^verbatim>\<open>except Exception\<close>: the key goes to the ledger and the exception ends there.\<close>

definition except_log :: "string \<Rightarrow> unit result \<Rightarrow> world" where
  "except_log file r = (case r of (Inl e, w) \<Rightarrow> log_failure file w | (Inr u, w) \<Rightarrow> w)"

text \<open>The scratch paths of one invocation, lines 44 to 46.\<close>

definition gz_path_of :: "world \<Rightarrow> string" where
  "gz_path_of w = ''/tmp/temp_'' @ uuid_src w (uuid_calls w) @ ''.gz''"

definition csv_path_of :: "world \<Rightarrow> string" where
  "csv_path_of w = ''/tmp/temp_'' @ uuid_src w (Suc (uuid_calls w)) @ ''.csv''"

definition wide_path_of :: "world \<Rightarrow> string" where
  "wide_path_of w = ''/tmp/wide_'' @ uuid_src w (Suc (Suc (uuid_calls w))) @ ''.csv''"

definition transform_csv ::
  "'df lib \<Rightarrow> string \<Rightarrow> string \<Rightarrow> string \<Rightarrow> string \<Rightarrow> world \<Rightarrow> unit result"
where
  "transform_csv lib file city location_id year w =
     (let gz_path = gz_path_of w; (u1, wa) = uuid4 w;
          csv_path = csv_path_of w; (u2, wb) = uuid4 wa;
          wide_path = wide_path_of w; (u3, w0) = uuid4 wb;
          wide_file = wide_key city location_id year file;
          archive_file = archive_key city location_id year file
      in
        if endswith file ''csv.gz'' then
          (let w1 = except_log file
                      (try_gz lib file location_id gz_path csv_path wide_path
                         archive_file wide_file w0)
           in (Inr (),
               remove_if_exists wide_path (remove_if_exists csv_path (remove_if_exists gz_path w1))))
        else if endswith file ''.csv'' then
          (let w1 = except_log file
                      (try_csv lib file location_id csv_path wide_path archive_file wide_file w0)
           in (Inr (), remove_if_exists wide_path (remove_if_exists csv_path w1)))
        else (Inr (), w0))"

section \<open>The retry driver\<close>

text \<open>
  Lines 150 to 152: the second dash-separated piece of the key is taken as the location
  identifier, the first four characters of the third as the year.  Indexing past the end
  of the list raises.
\<close>

definition failed_key_parts :: "string \<Rightarrow> exn + string \<times> string" where
  "failed_key_parts failed_file =
     (let failed_file_name_split = split failed_file CHR ''-'' in
      if length failed_file_name_split \<le> 1 then Inl IndexError
      else if length failed_file_name_split \<le> 2 then Inl IndexError
      else Inr (failed_file_name_split ! 1, take 4 (failed_file_name_split ! 2)))"

text \<open>
  The inner \<^verbatim>\<open>for failure_attempt in range(5)\<close>, with the number of attempts left.  The
  result is the flag \<^verbatim>\<open>success\<close>.
\<close>

fun retry_attempts ::
  "'df lib \<Rightarrow> nat \<Rightarrow> string \<Rightarrow> string \<Rightarrow> string \<Rightarrow> world \<Rightarrow> bool \<times> world"
where
  "retry_attempts lib 0 failed_file failed_location_id failed_year w = (False, w)"
| "retry_attempts lib (Suc n) failed_file failed_location_id failed_year w =
     (case transform_csv lib (strip failed_file) ''lyon'' failed_location_id failed_year w of
        (Inr u, w1) \<Rightarrow> (True, w1)
      | (Inl e, w1) \<Rightarrow>
          retry_attempts lib n failed_file failed_location_id failed_year (time_sleep 20 w1))"

text \<open>The loop over the keys read from the ledger, with \<^verbatim>\<open>still_failed\<close> carried along.\<close>

fun retry_each :: "'df lib \<Rightarrow> string list \<Rightarrow> string list \<Rightarrow> world \<Rightarrow> string list result" where
  "retry_each lib [] still_failed w = (Inr still_failed, w)"
| "retry_each lib (failed_file # rest) still_failed w =
     (case failed_key_parts failed_file of
        Inl e \<Rightarrow> (Inl e, w)
      | Inr (failed_location_id, failed_year) \<Rightarrow>
          (case retry_attempts lib 5 failed_file failed_location_id failed_year w of
             (success, w1) \<Rightarrow>
               retry_each lib rest
                 (if success then still_failed else still_failed @ [failed_file]) w1))"

text \<open>Opening the ledger in write mode truncates it; the residue is written line by line.\<close>

definition rewrite_log :: "string list \<Rightarrow> world \<Rightarrow> world" where
  "rewrite_log still_failed w =
     w\<lparr>files := (files w)(FAILED_LOG \<mapsto> concat (map (\<lambda>file. file @ [CHR 0x0A]) still_failed))\<rparr>"

definition retry_failed_files :: "'df lib \<Rightarrow> world \<Rightarrow> unit result" where
  "retry_failed_files lib w =
     (case read_log_failure w of
        (Inl e, w1) \<Rightarrow> (Inl e, w1)
      | (Inr failed_files_list, w1) \<Rightarrow>
          (case retry_each lib failed_files_list [] w1 of
             (Inl e, w2) \<Rightarrow> (Inl e, w2)
           | (Inr still_failed, w2) \<Rightarrow> (Inr (), rewrite_log still_failed w2)))"

text \<open>\<^verbatim>\<open>os.path.getsize\<close>\<close>

definition getsize :: "string \<Rightarrow> world \<Rightarrow> exn + nat" where
  "getsize path w = (case files w path of None \<Rightarrow> Inl FileNotFoundError | Some t \<Rightarrow> Inr (length t))"

text \<open>
  Lines 181 to 191 of \<^verbatim>\<open>main\<close>: up to five passes, with the number of passes left.  A
  \<^verbatim>\<open>FileNotFoundError\<close> from the size probe or from the pass ends the loop quietly; any
  other exception leaves \<^verbatim>\<open>main\<close>.  The second component of the result counts the
  retry passes that were started.
\<close>

fun main_retry_loop :: "'df lib \<Rightarrow> nat \<Rightarrow> nat \<Rightarrow> world \<Rightarrow> (exn + unit) \<times> nat \<times> world" where
  "main_retry_loop lib 0 passes w = (Inr (), passes, w)"
| "main_retry_loop lib (Suc n) passes w =
     (case getsize FAILED_LOG w of
        Inl e \<Rightarrow> (if e = FileNotFoundError then (Inr (), passes, w) else (Inl e, passes, w))
      | Inr n_bytes \<Rightarrow>
          (if n_bytes \<noteq> 0 then
             (case retry_failed_files lib w of
                (Inl e, w1) \<Rightarrow>
                  (if e = FileNotFoundError then (Inr (), Suc passes, w1)
                   else (Inl e, Suc passes, w1))
              | (Inr u, w1) \<Rightarrow> main_retry_loop lib n (Suc passes) w1)
           else (Inr (), passes, w)))"

section \<open>Vocabulary of the properties\<close>

text \<open>
  Whether the \<open>i\<close>-th upload attempt (counted from 0) of a call started in \<open>w\<close> fails: the
  object store refuses the request, or the local file is missing.
\<close>

definition attempt_fails :: "world \<Rightarrow> string \<Rightarrow> nat \<Rightarrow> bool" where
  "attempt_fails w path i \<longleftrightarrow> s3_fails w (s3_calls w + i) \<or> files w path = None"

text \<open>\<open>n\<close> failed attempts, each followed by a sleep.\<close>

definition failed_attempts :: "string \<Rightarrow> string \<Rightarrow> nat \<Rightarrow> nat \<Rightarrow> event list" where
  "failed_attempts path file delay n = concat (replicate n [Upload path file False, Sleep delay])"

text \<open>The calls made between two states of the world.\<close>

definition new_events :: "world \<Rightarrow> world \<Rightarrow> event list" where
  "new_events w w' = drop (length (trace w)) (trace w')"

fun is_upload :: "event \<Rightarrow> bool" where
  "is_upload (Upload path key ok) = True"
| "is_upload e = False"

fun is_delete :: "event \<Rightarrow> bool" where
  "is_delete (Delete key ok) = True"
| "is_delete e = False"

text \<open>A small instance of the libraries and of the world, for concrete runs.\<close>

definition demo_lib :: "string list lib" where
  "demo_lib =
     \<lparr>gunzip = (\<lambda>raw. if take 2 raw = ''GZ'' then Inr (drop 2 raw) else Inl BadGzipFile),
      read_csv = (\<lambda>text. if text = [] then Inl ParserError else Inr (readlines text)),
      df_empty = (\<lambda>df. length df \<le> 1),
      reshape = (\<lambda>df location_id. Inr (map (\<lambda>row. row @ '','' @ location_id) df)),
      to_csv = (\<lambda>df. concat (map (\<lambda>row. row @ [CHR 0x0A]) df))\<rparr>"

definition demo_world :: "(string \<rightharpoonup> string) \<Rightarrow> (string \<rightharpoonup> string) \<Rightarrow> (nat \<Rightarrow> bool) \<Rightarrow> world" where
  "demo_world objs fs fails =
     \<lparr>objects = objs, files = fs, s3_fails = fails, s3_calls = 0,
      uuid_src = (\<lambda>n. replicate (Suc n) CHR ''u''), uuid_calls = 0, trace = []\<rparr>"

text \<open>The world after the three identifiers are drawn.\<close>
definition drawn :: "world \<Rightarrow> world" where
  "drawn w = w\<lparr>uuid_calls := Suc (Suc (Suc (uuid_calls w)))\<rparr>"

text \<open>The outcome of the try block of the branch that a recognised key takes.\<close>
definition unit_try :: "'df lib \<Rightarrow> string \<Rightarrow> string \<Rightarrow> string \<Rightarrow> string \<Rightarrow> world \<Rightarrow> unit result" where
  "unit_try lib file city location_id year w =
     (if endswith file ''csv.gz'' then
        try_gz lib file location_id (gz_path_of w) (csv_path_of w) (wide_path_of w)
          (archive_key city location_id year file) (wide_key city location_id year file) (drawn w)
      else
        try_csv lib file location_id (csv_path_of w) (wide_path_of w)
          (archive_key city location_id year file) (wide_key city location_id year file) (drawn w))"

definition cleanup :: "string \<Rightarrow> world \<Rightarrow> world \<Rightarrow> world" where
  "cleanup file w w1 =
     (if endswith file ''csv.gz'' then
        remove_if_exists (wide_path_of w) (remove_if_exists (csv_path_of w)
          (remove_if_exists (gz_path_of w) w1))
      else remove_if_exists (wide_path_of w) (remove_if_exists (csv_path_of w) w1))"

definition recognized :: "string \<Rightarrow> bool" where
  "recognized file \<longleftrightarrow> endswith file ''csv.gz'' \<or> endswith file ''.csv''"

text \<open>
  The object stored under the key parses to a frame without data rows: it is there, it
  decompresses (when the key is a compressed one) and \<^verbatim>\<open>read_csv\<close> accepts it.
\<close>

definition zero_rows :: "'df lib \<Rightarrow> string \<Rightarrow> world \<Rightarrow> bool" where
  "zero_rows lib file w \<longleftrightarrow>
     (case objects w file of
        None \<Rightarrow> False
      | Some body \<Rightarrow>
          (case (if endswith file ''csv.gz'' then gunzip lib body else Inr body) of
             Inl e \<Rightarrow> False
           | Inr text \<Rightarrow>
               (case read_csv lib text of Inl e \<Rightarrow> False | Inr df \<Rightarrow> df_empty lib df)))"

text \<open>
  The requests one call of \<open>upload_with_retry\<close> with a budget of \<open>n\<close> attempts makes when the
  local file is there, the first of them being request number \<open>c\<close>: it stops at the first
  request that the store serves.
\<close>

fun uploads_made :: "(nat \<Rightarrow> bool) \<Rightarrow> nat \<Rightarrow> nat \<Rightarrow> nat" where
  "uploads_made fails c 0 = 0"
| "uploads_made fails c (Suc n) = (if fails c then Suc (uploads_made fails (Suc c) n) else 1)"

definition all_fail :: "(nat \<Rightarrow> bool) \<Rightarrow> nat \<Rightarrow> nat \<Rightarrow> bool" where
  "all_fail fails c n \<longleftrightarrow> list_all fails [c..<c + n]"

text \<open>
  What the fetch, decode and parse steps of the unit yield on a key, read off the store and
  the libraries: the download is the next request, a compressed key is decompressed, the
  text is parsed.
\<close>

definition source_frame :: "'df lib \<Rightarrow> string \<Rightarrow> world \<Rightarrow> exn + 'df" where
  "source_frame lib file w =
     (if s3_fails w (s3_calls w) then Inl ClientError
      else case objects w file of
             None \<Rightarrow> Inl ClientError
           | Some body \<Rightarrow>
               (case (if endswith file ''csv.gz'' then gunzip lib body else Inr body) of
                  Inl e \<Rightarrow> Inl e
                | Inr text \<Rightarrow> read_csv lib text))"

text \<open>
  The numbers of the two requests that delete the source object, when the unit gets that
  far: the download is request \<open>s3_calls w\<close>, the attempts of the archive upload follow
  it, then comes the first delete, then the attempts of the wide upload, then the second
  delete.
\<close>

definition first_delete_at :: "world \<Rightarrow> nat" where
  "first_delete_at w = Suc (s3_calls w) + uploads_made (s3_fails w) (Suc (s3_calls w)) 5"

definition second_delete_at :: "world \<Rightarrow> nat" where
  "second_delete_at w =
     Suc (first_delete_at w) + uploads_made (s3_fails w) (Suc (first_delete_at w)) 5"

text \<open>
  A step after the validation other than an upload raises: the first delete, the reshape,
  or the second delete.
\<close>

definition later_step_raises :: "'df lib \<Rightarrow> 'df \<Rightarrow> string \<Rightarrow> world \<Rightarrow> bool" where
  "later_step_raises lib df location_id w \<longleftrightarrow>
     s3_fails w (first_delete_at w) \<or>
     (case reshape lib df location_id of
        Inl e \<Rightarrow> True
      | Inr wide \<Rightarrow> s3_fails w (second_delete_at w))"

text \<open>
  The lines that the two calls of \<open>upload_with_retry\<close> write to the ledger: the target key
  of an upload all five attempts of which fail.  The wide upload is only reached when the
  first delete and the reshape go through.
\<close>

definition targets_logged ::
  "'df lib \<Rightarrow> 'df \<Rightarrow> string \<Rightarrow> string \<Rightarrow> string \<Rightarrow> string \<Rightarrow> world \<Rightarrow> string"
where
  "targets_logged lib df file city location_id year w =
     (if all_fail (s3_fails w) (Suc (s3_calls w)) 5
      then archive_key city location_id year file @ [CHR 0x0A] else []) @
     (if s3_fails w (first_delete_at w) then []
      else case reshape lib df location_id of
             Inl e \<Rightarrow> []
           | Inr wide \<Rightarrow>
               (if all_fail (s3_fails w) (Suc (first_delete_at w)) 5
                then wide_key city location_id year file @ [CHR 0x0A] else []))"

text \<open>
  A key that follows the naming convention of the source objects,
  \<^verbatim>\<open>{location}/{location_id}/{year}/{filename}\<close>, and whose file name is made of a
  prefix, the location identifier and a date that starts with the year, separated by dashes.
\<close>

definition dated_key :: "string \<Rightarrow> string \<Rightarrow> string \<Rightarrow> string \<Rightarrow> string \<Rightarrow> string" where
  "dated_key location location_id year pfx rest =
     location @ ''/'' @ location_id @ ''/'' @ year @ ''/'' @
     pfx @ ''-'' @ location_id @ ''-'' @ year @ rest"

section \<open>The transfer primitive: properties\<close>

lemma upload_file_fails:
  "attempt_fails w path 0 \<Longrightarrow>
   upload_file path key w =
     (Inl ClientError,
      w\<lparr>s3_calls := Suc (s3_calls w), trace := trace w @ [Upload path key False]\<rparr>)"
  by (auto simp: attempt_fails_def upload_file_def)

lemma upload_file_succeeds:
  "\<not> attempt_fails w path 0 \<Longrightarrow>
   upload_file path key w =
     (Inr (),
      w\<lparr>objects := (objects w)(key \<mapsto> the (files w path)), s3_calls := Suc (s3_calls w),
        trace := trace w @ [Upload path key True]\<rparr>)"
  by (auto simp: attempt_fails_def upload_file_def)

lemma attempt_fails_shift:
  "attempt_fails (time_sleep delay (w\<lparr>s3_calls := Suc (s3_calls w), trace := t\<rparr>)) path i
     = attempt_fails w path (Suc i)"
  by (simp add: attempt_fails_def time_sleep_def)

text \<open>Every attempt that is left fails: the last failure logs the key.\<close>

lemma upload_loop_all_fail:
  "attempt + Suc k = retry \<Longrightarrow> (\<forall>i\<le>k. attempt_fails w path i) \<Longrightarrow>
   upload_loop path file retry delay attempt w =
     (Inr (), log_failure file
        (w\<lparr>s3_calls := s3_calls w + Suc k,
           trace := trace w @ failed_attempts path file delay k @ [Upload path file False]\<rparr>))"
proof (induction k arbitrary: attempt w)
  case 0
  then have f: "attempt_fails w path 0" by simp
  from 0 have r: "retry = Suc attempt" by simp
  show ?case
    by (subst upload_loop.simps, simp add: r upload_file_fails [OF f], subst upload_loop.simps)
       (simp add: failed_attempts_def)
next
  case (Suc k)
  then have f: "attempt_fails w path 0" by simp
  let ?w1 = "time_sleep delay
    (w\<lparr>s3_calls := Suc (s3_calls w), trace := trace w @ [Upload path file False]\<rparr>)"
  have a: "\<forall>i\<le>k. attempt_fails ?w1 path i"
    using Suc.prems(2) by (simp add: attempt_fails_shift)
  from Suc.prems have r: "Suc attempt + Suc k = retry" by simp
  have "upload_loop path file retry delay attempt w =
        upload_loop path file retry delay (Suc attempt) ?w1"
    using Suc.prems(1) by (subst upload_loop.simps) (simp add: upload_file_fails [OF f])
  also note Suc.IH [OF r a]
  finally show ?case
    by (simp add: time_sleep_def failed_attempts_def)
qed

text \<open>The first \<open>j\<close> attempts fail and the next one succeeds: nothing is logged.\<close>

lemma upload_loop_succeeds:
  "attempt + j < retry \<Longrightarrow> (\<forall>i<j. attempt_fails w path i) \<Longrightarrow> \<not> attempt_fails w path j \<Longrightarrow>
   upload_loop path file retry delay attempt w =
     (Inr (), w\<lparr>objects := (objects w)(file \<mapsto> the (files w path)),
                s3_calls := s3_calls w + Suc j,
                trace := trace w @ failed_attempts path file delay j @ [Upload path file True]\<rparr>)"
proof (induction j arbitrary: attempt w)
  case 0
  then show ?case
    by (subst upload_loop.simps) (simp add: upload_file_succeeds failed_attempts_def)
next
  case (Suc j)
  then have f: "attempt_fails w path 0" by simp
  let ?w1 = "time_sleep delay
    (w\<lparr>s3_calls := Suc (s3_calls w), trace := trace w @ [Upload path file False]\<rparr>)"
  have a: "\<forall>i<j. attempt_fails ?w1 path i"
    using Suc.prems(2) by (simp add: attempt_fails_shift)
  have b: "\<not> attempt_fails ?w1 path j"
    using Suc.prems(3) by (simp add: attempt_fails_shift)
  from Suc.prems have r: "Suc attempt + j < retry" by simp
  have "upload_loop path file retry delay attempt w =
        upload_loop path file retry delay (Suc attempt) ?w1"
    using Suc.prems(1) by (subst upload_loop.simps) (simp add: upload_file_fails [OF f])
  also note Suc.IH [OF r a b]
  finally show ?case
    by (simp add: time_sleep_def failed_attempts_def)
qed

text \<open>The three ways a call can go.\<close>

lemma upload_with_retry_cases:
  obtains (none) "retry = 0" "upload_with_retry path file retry delay w = (Inr (), w)"
  | (exhausted) k where "retry = Suc k" "\<forall>i<retry. attempt_fails w path i"
      "upload_with_retry path file retry delay w =
        (Inr (), log_failure file
          (w\<lparr>s3_calls := s3_calls w + Suc k,
             trace := trace w @ failed_attempts path file delay k @ [Upload path file False]\<rparr>))"
  | (uploaded) j where "j < retry" "\<forall>i<j. attempt_fails w path i" "\<not> attempt_fails w path j"
      "upload_with_retry path file retry delay w =
        (Inr (), w\<lparr>objects := (objects w)(file \<mapsto> the (files w path)),
                   s3_calls := s3_calls w + Suc j,
                   trace := trace w @ failed_attempts path file delay j @ [Upload path file True]\<rparr>)"
proof (cases "\<exists>i<retry. \<not> attempt_fails w path i")
  case True
  define j where "j = (LEAST i. i < retry \<and> \<not> attempt_fails w path i)"
  from True obtain i0 where "i0 < retry \<and> \<not> attempt_fails w path i0"
    by blast
  then have "j < retry \<and> \<not> attempt_fails w path j"
    unfolding j_def by (rule LeastI [where P = "\<lambda>i. i < retry \<and> \<not> attempt_fails w path i"])
  then have jl: "j < retry" and jn: "\<not> attempt_fails w path j"
    by blast+
  have ja: "\<forall>i<j. attempt_fails w path i"
  proof (intro allI impI)
    fix i assume ij: "i < j"
    then have "\<not> (i < retry \<and> \<not> attempt_fails w path i)"
      unfolding j_def by (rule not_less_Least)
    moreover from ij jl have "i < retry" by (rule less_trans)
    ultimately show "attempt_fails w path i" by blast
  qed
  from jl have "0 + j < retry" by simp
  from upload_loop_succeeds [OF this ja jn]
  have e: "upload_loop path file retry delay 0 w =
        (Inr (), w\<lparr>objects := (objects w)(file \<mapsto> the (files w path)),
                   s3_calls := s3_calls w + Suc j,
                   trace := trace w @ failed_attempts path file delay j @ [Upload path file True]\<rparr>)" .
  show ?thesis
    by (rule uploaded [OF jl ja jn]) (unfold upload_with_retry_def, rule e)
next
  case False
  then have all: "\<forall>i<retry. attempt_fails w path i" by blast
  show ?thesis
  proof (cases retry)
    case 0
    have "upload_loop path file retry delay 0 w = (Inr (), w)"
      by (subst upload_loop.simps) (simp add: 0)
    then show ?thesis
      by (intro none [OF 0]) (unfold upload_with_retry_def)
  next
    case (Suc k)
    with all have af: "\<forall>i\<le>k. attempt_fails w path i" by (simp add: less_Suc_eq_le)
    from Suc have "0 + Suc k = retry" by simp
    from upload_loop_all_fail [OF this af]
    have e: "upload_loop path file retry delay 0 w =
        (Inr (), log_failure file
          (w\<lparr>s3_calls := s3_calls w + Suc k,
             trace := trace w @ failed_attempts path file delay k @ [Upload path file False]\<rparr>))" .
    show ?thesis
      by (rule exhausted [OF Suc all]) (unfold upload_with_retry_def, rule e)
  qed
qed

lemma upload_with_retry_returns: "fst (upload_with_retry path file retry delay w) = Inr ()"
  by (cases rule: upload_with_retry_cases [of retry path "file" delay w]) simp_all

lemma ledger_log_failure:
  "ledger (log_failure file w) = Some (ledger_text w @ file @ [CHR 0x0A])"
  by (simp add: ledger_def log_failure_def)

text \<open>
  Claim C2.  A call of \<open>upload_with_retry\<close> that makes attempts (\<open>retry\<close> is positive) all of
  which fail returns normally and leaves the ledger as it was with the remote key and a line
  feed appended, once.  A call in which some attempt succeeds returns normally and leaves
  the ledger untouched.
\<close>

theorem upload_with_retry_ledger:
  "(0 < retry \<longrightarrow> (\<forall>i<retry. attempt_fails w path i) \<longrightarrow>
      fst (upload_with_retry path file retry delay w) = Inr () \<and>
      ledger (snd (upload_with_retry path file retry delay w))
        = Some (ledger_text w @ file @ [CHR 0x0A]))
   \<and> ((\<exists>i<retry. \<not> attempt_fails w path i) \<longrightarrow>
      fst (upload_with_retry path file retry delay w) = Inr () \<and>
      ledger (snd (upload_with_retry path file retry delay w)) = ledger w)"
proof (cases rule: upload_with_retry_cases [of retry path "file" delay w])
  case none
  then show ?thesis by simp
next
  case (exhausted k)
  then have n: "\<not> (\<exists>i<retry. \<not> attempt_fails w path i)" by blast
  have "ledger (snd (upload_with_retry path file retry delay w))
          = Some (ledger_text w @ file @ [CHR 0x0A])"
    by (simp add: exhausted(3) ledger_log_failure) (simp add: ledger_text_def)
  moreover have "fst (upload_with_retry path file retry delay w) = Inr ()"
    by (simp add: exhausted(3))
  ultimately show ?thesis
    using n by blast
next
  case (uploaded j)
  then show ?thesis
    by (auto simp: ledger_def)
qed

lemma filter_upload_failed_attempts:
  "length (filter is_upload (failed_attempts path file delay n)) = n"
  by (induction n) (simp_all add: failed_attempts_def)

text \<open>
  Claim C5.  The calls \<open>upload_with_retry\<close> makes are: none when \<open>retry\<close> is 0; otherwise
  \<open>n < retry\<close> failed uploads, each followed by a sleep of \<open>delay\<close>, then one last upload.  So
  there are at most \<open>retry\<close> upload attempts, with a sleep between consecutive ones.  With
  the default budget of 5, when attempts 1 to 4 fail and attempt 5 succeeds, five uploads
  are made and the ledger is left untouched.
\<close>

theorem upload_with_retry_attempts:
  "(retry = 0 \<and> new_events w (snd (upload_with_retry path file retry delay w)) = []
    \<or> (\<exists>n<retry. \<exists>ok.
         new_events w (snd (upload_with_retry path file retry delay w))
           = failed_attempts path file delay n @ [Upload path file ok]))
   \<and> length (filter is_upload (new_events w (snd (upload_with_retry path file retry delay w))))
       \<le> retry
   \<and> ((\<forall>i<4. attempt_fails w path i) \<longrightarrow> \<not> attempt_fails w path 4 \<longrightarrow>
        new_events w (snd (upload_with_retry path file 5 delay w))
          = failed_attempts path file delay 4 @ [Upload path file True] \<and>
        ledger (snd (upload_with_retry path file 5 delay w)) = ledger w)"
proof (intro conjI impI)
  show "retry = 0 \<and> new_events w (snd (upload_with_retry path file retry delay w)) = []
    \<or> (\<exists>n<retry. \<exists>ok.
         new_events w (snd (upload_with_retry path file retry delay w))
           = failed_attempts path file delay n @ [Upload path file ok])"
  proof (cases rule: upload_with_retry_cases [of retry path "file" delay w])
    case none
    then show ?thesis by (simp add: new_events_def)
  next
    case (exhausted k)
    then show ?thesis by (auto simp: new_events_def log_failure_def)
  next
    case (uploaded j)
    then show ?thesis by (auto simp: new_events_def)
  qed
  show "length (filter is_upload (new_events w (snd (upload_with_retry path file retry delay w))))
       \<le> retry"
  proof (cases rule: upload_with_retry_cases [of retry path "file" delay w])
    case none
    then show ?thesis by (simp add: new_events_def)
  next
    case (exhausted k)
    then show ?thesis
      by (simp add: new_events_def log_failure_def filter_upload_failed_attempts)
  next
    case (uploaded j)
    then show ?thesis
      by (simp add: new_events_def filter_upload_failed_attempts)
  qed
next
  assume a: "\<forall>i<4. attempt_fails w path i" and b: "\<not> attempt_fails w path 4"
  have e: "upload_with_retry path file 5 delay w =
        (Inr (), w\<lparr>objects := (objects w)(file \<mapsto> the (files w path)),
                   s3_calls := s3_calls w + Suc 4,
                   trace := trace w @ failed_attempts path file delay 4 @ [Upload path file True]\<rparr>)"
    using upload_loop_succeeds [of 0 4 5 w path "file" delay] a b
    by (simp add: upload_with_retry_def)
  show "new_events w (snd (upload_with_retry path file 5 delay w))
          = failed_attempts path file delay 4 @ [Upload path file True]"
    by (simp add: e new_events_def)
  show "ledger (snd (upload_with_retry path file 5 delay w)) = ledger w"
    by (simp add: e ledger_def)
qed


theorem upload_with_retry_ledger_witness:
  "(0::nat) < 5
   \<and> attempt_fails (demo_world Map.empty [''/tmp/a.csv'' \<mapsto> ''x''] (\<lambda>n. True)) ''/tmp/a.csv'' 0
   \<and> attempt_fails (demo_world Map.empty [''/tmp/a.csv'' \<mapsto> ''x''] (\<lambda>n. True)) ''/tmp/a.csv'' 4
   \<and> ledger (snd (upload_with_retry ''/tmp/a.csv'' ''lyon/archive/a.csv'' 5 2
         (demo_world Map.empty [''/tmp/a.csv'' \<mapsto> ''x''] (\<lambda>n. True))))
       = Some (''lyon/archive/a.csv'' @ [CHR 0x0A])
   \<and> (\<exists>i<5. \<not> attempt_fails (demo_world Map.empty [''/tmp/a.csv'' \<mapsto> ''x''] (\<lambda>n. n < 2)) ''/tmp/a.csv'' i)
   \<and> ledger (snd (upload_with_retry ''/tmp/a.csv'' ''lyon/archive/a.csv'' 5 2
         (demo_world Map.empty [''/tmp/a.csv'' \<mapsto> ''x''] (\<lambda>n. n < 2))))
       = None"
proof -
  let ?down = "demo_world Map.empty [''/tmp/a.csv'' \<mapsto> ''x''] (\<lambda>n. True)"
  let ?flaky = "demo_world Map.empty [''/tmp/a.csv'' \<mapsto> ''x''] (\<lambda>n. n < 2)"
  have a: "\<forall>i<5. attempt_fails ?down ''/tmp/a.csv'' i"
    by (simp add: attempt_fails_def demo_world_def)
  have b: "\<exists>i<5. \<not> attempt_fails ?flaky ''/tmp/a.csv'' i"
    by (rule exI [of _ 2]) (simp add: attempt_fails_def demo_world_def)
  have c: "ledger_text ?down = []" "ledger ?flaky = None"
    by (simp_all add: ledger_text_def ledger_def demo_world_def FAILED_LOG_def)
  have p: "(0::nat) < 5" by simp
  note t1 = upload_with_retry_ledger [of 5 ?down "''/tmp/a.csv''" "''lyon/archive/a.csv''" 2,
      THEN conjunct1, THEN mp, OF p, THEN mp, OF a]
  note t2 = upload_with_retry_ledger [of 5 ?flaky "''/tmp/a.csv''" "''lyon/archive/a.csv''" 2,
      THEN conjunct2, THEN mp, OF b]
  from a have a0: "attempt_fails ?down ''/tmp/a.csv'' 0" and a4: "attempt_fails ?down ''/tmp/a.csv'' 4"
    by simp_all
  from t1 c(1) have l1: "ledger (snd (upload_with_retry ''/tmp/a.csv'' ''lyon/archive/a.csv'' 5 2 ?down))
       = Some (''lyon/archive/a.csv'' @ [CHR 0x0A])"
    by simp
  from t2 c(2) have l2: "ledger (snd (upload_with_retry ''/tmp/a.csv'' ''lyon/archive/a.csv'' 5 2 ?flaky))
       = None"
    by simp
  from p a0 a4 l1 b l2 show ?thesis
    by blast
qed

theorem upload_with_retry_attempts_witness:
  "attempt_fails (demo_world Map.empty [''/tmp/a.csv'' \<mapsto> ''x''] (\<lambda>n. n < 4)) ''/tmp/a.csv'' 3
   \<and> \<not> attempt_fails (demo_world Map.empty [''/tmp/a.csv'' \<mapsto> ''x''] (\<lambda>n. n < 4)) ''/tmp/a.csv'' 4
   \<and> new_events (demo_world Map.empty [''/tmp/a.csv'' \<mapsto> ''x''] (\<lambda>n. n < 4))
        (snd (upload_with_retry ''/tmp/a.csv'' ''lyon/archive/a.csv'' 5 2
           (demo_world Map.empty [''/tmp/a.csv'' \<mapsto> ''x''] (\<lambda>n. n < 4))))
       = failed_attempts ''/tmp/a.csv'' ''lyon/archive/a.csv'' 2 4
           @ [Upload ''/tmp/a.csv'' ''lyon/archive/a.csv'' True]
   \<and> ledger (snd (upload_with_retry ''/tmp/a.csv'' ''lyon/archive/a.csv'' 5 2
         (demo_world Map.empty [''/tmp/a.csv'' \<mapsto> ''x''] (\<lambda>n. n < 4))))
       = None"
proof -
  let ?flaky = "demo_world Map.empty [''/tmp/a.csv'' \<mapsto> ''x''] (\<lambda>n. n < 4)"
  have a: "\<forall>i<4. attempt_fails ?flaky ''/tmp/a.csv'' i"
    by (simp add: attempt_fails_def demo_world_def)
  have b: "\<not> attempt_fails ?flaky ''/tmp/a.csv'' 4"
    by (simp add: attempt_fails_def demo_world_def)
  have c: "ledger ?flaky = None"
    by (simp add: ledger_def demo_world_def FAILED_LOG_def)
  note t = upload_with_retry_attempts [of 5 ?flaky "''/tmp/a.csv''" "''lyon/archive/a.csv''" 2,
      THEN conjunct2, THEN conjunct2, THEN mp, OF a, THEN mp, OF b]
  from a have a3: "attempt_fails ?flaky ''/tmp/a.csv'' 3" by simp
  from t c have l: "ledger (snd (upload_with_retry ''/tmp/a.csv'' ''lyon/archive/a.csv'' 5 2 ?flaky)) = None"
    by simp
  from a3 b t [THEN conjunct1] l show ?thesis
    by blast
qed

section \<open>The file transform unit: properties\<close>

lemma transform_csv_recognized:
  "recognized file \<Longrightarrow>
   transform_csv lib file city location_id year w =
     (Inr (), cleanup file w (except_log file (unit_try lib file city location_id year w)))"
  by (auto simp: transform_csv_def recognized_def unit_try_def cleanup_def drawn_def uuid4_def
      Let_def)

lemma transform_csv_unrecognized:
  "\<not> recognized file \<Longrightarrow> transform_csv lib file city location_id year w = (Inr (), drawn w)"
  by (simp add: transform_csv_def recognized_def drawn_def uuid4_def Let_def)

lemma transform_csv_returns: "fst (transform_csv lib file city location_id year w) = Inr ()"
  by (cases "recognized file") (simp_all add: transform_csv_recognized transform_csv_unrecognized)

text \<open>
  Claim C10.  For a key that ends in neither \<^verbatim>\<open>csv.gz\<close> nor \<^verbatim>\<open>.csv\<close> the unit returns
  normally and touches neither the object store nor the local files (the ledger is one of
  them); no request is made.  Only the three scratch names are drawn.
\<close>

theorem transform_csv_noop:
  "\<not> endswith file ''csv.gz'' \<Longrightarrow> \<not> endswith file ''.csv'' \<Longrightarrow>
   fst (transform_csv lib file city location_id year w) = Inr () \<and>
   objects (snd (transform_csv lib file city location_id year w)) = objects w \<and>
   files (snd (transform_csv lib file city location_id year w)) = files w \<and>
   s3_calls (snd (transform_csv lib file city location_id year w)) = s3_calls w \<and>
   trace (snd (transform_csv lib file city location_id year w)) = trace w"
  by (simp add: transform_csv_unrecognized recognized_def drawn_def)

theorem transform_csv_noop_witness:
  "\<not> endswith ''lyon/3647/2022/notes.txt'' ''csv.gz'' \<and>
   \<not> endswith ''lyon/3647/2022/notes.txt'' ''.csv'' \<and>
   files (snd (transform_csv demo_lib ''lyon/3647/2022/notes.txt'' ''lyon'' ''3647'' ''2022''
      (demo_world [''lyon/3647/2022/notes.txt'' \<mapsto> ''hello''] Map.empty (\<lambda>n. False)))) = Map.empty \<and>
   objects (snd (transform_csv demo_lib ''lyon/3647/2022/notes.txt'' ''lyon'' ''3647'' ''2022''
      (demo_world [''lyon/3647/2022/notes.txt'' \<mapsto> ''hello''] Map.empty (\<lambda>n. False))))
     = [''lyon/3647/2022/notes.txt'' \<mapsto> ''hello'']"
proof -
  let ?w = "demo_world [''lyon/3647/2022/notes.txt'' \<mapsto> ''hello''] Map.empty (\<lambda>n. False)"
  have a: "\<not> endswith ''lyon/3647/2022/notes.txt'' ''csv.gz''"
    and b: "\<not> endswith ''lyon/3647/2022/notes.txt'' ''.csv''"
    by (simp_all add: endswith_def)
  note t = transform_csv_noop [OF a b, of demo_lib "''lyon''" "''3647''" "''2022''" ?w]
  have "files ?w = Map.empty" "objects ?w = [''lyon/3647/2022/notes.txt'' \<mapsto> ''hello'']"
    by (simp_all add: demo_world_def)
  with a b t show ?thesis by simp
qed

lemma scratch_not_log [simp]:
  "gz_path_of w \<noteq> FAILED_LOG" "csv_path_of w \<noteq> FAILED_LOG" "wide_path_of w \<noteq> FAILED_LOG"
  "FAILED_LOG \<noteq> gz_path_of w" "FAILED_LOG \<noteq> csv_path_of w" "FAILED_LOG \<noteq> wide_path_of w"
  by (simp_all add: gz_path_of_def csv_path_of_def wide_path_of_def FAILED_LOG_def)

lemma ledger_remove_if_exists [simp]:
  "path \<noteq> FAILED_LOG \<Longrightarrow> ledger (remove_if_exists path w) = ledger w"
  by (simp add: ledger_def remove_if_exists_def)

lemma ledger_cleanup [simp]: "ledger (cleanup file w w1) = ledger w1"
  by (simp add: cleanup_def)

lemma cleanup_other [simp]:
  "objects (cleanup file w w1) = objects w1" "trace (cleanup file w w1) = trace w1"
  "s3_calls (cleanup file w w1) = s3_calls w1"
  by (simp_all add: cleanup_def remove_if_exists_def)

lemma log_failure_other [simp]:
  "objects (log_failure file w) = objects w" "trace (log_failure file w) = trace w"
  "s3_calls (log_failure file w) = s3_calls w"
  by (simp_all add: log_failure_def)

text \<open>With an empty frame the try block stops at the check of line 65.\<close>

lemma unit_try_zero_rows:
  assumes "recognized file" "zero_rows lib file w"
  shows "\<exists>e w1. unit_try lib file city location_id year w = (Inl e, w1) \<and>
           objects w1 = objects w \<and> files w1 FAILED_LOG = files w FAILED_LOG \<and>
           filter is_upload (new_events w w1) = [] \<and> filter is_delete (new_events w w1) = []"
proof (cases "endswith file ''csv.gz''")
  case True
  with assms(2) show ?thesis
    by (auto simp: unit_try_def try_gz_def fetch_gz_def download_file_def archive_and_widen_def
        zero_rows_def drawn_def new_events_def
        split: option.splits sum.splits)
next
  case False
  with assms(2) show ?thesis
    by (auto simp: unit_try_def try_csv_def fetch_csv_def download_file_def archive_and_widen_def
        zero_rows_def drawn_def new_events_def
        split: option.splits sum.splits)
qed

text \<open>
  Claim C4.  On a recognised key whose object parses to a frame without data rows, the unit
  attempts no upload at all (neither of the archive nor of the wide file) and no delete, the
  object store is left as it was, so that the source object is still there, and the key is
  appended to the ledger.
\<close>

theorem transform_csv_empty_input:
  assumes "recognized file" "zero_rows lib file w"
  shows "objects (snd (transform_csv lib file city location_id year w)) = objects w \<and>
         filter is_upload (new_events w (snd (transform_csv lib file city location_id year w))) = [] \<and>
         filter is_delete (new_events w (snd (transform_csv lib file city location_id year w))) = [] \<and>
         ledger (snd (transform_csv lib file city location_id year w))
           = Some (ledger_text w @ file @ [CHR 0x0A])"
proof -
  from unit_try_zero_rows [OF assms] obtain e w1 where
    u: "unit_try lib file city location_id year w = (Inl e, w1)" and
    o: "objects w1 = objects w" and lf: "files w1 FAILED_LOG = files w FAILED_LOG" and
    up: "filter is_upload (new_events w w1) = []" and de: "filter is_delete (new_events w w1) = []"
    by blast
  have l: "ledger_text w1 = ledger_text w"
    by (simp add: ledger_text_def lf)
  have t: "snd (transform_csv lib file city location_id year w) = cleanup file w (log_failure file w1)"
    by (simp add: transform_csv_recognized [OF assms(1)] u except_log_def)
  have n: "new_events w (cleanup file w (log_failure file w1)) = new_events w w1"
    by (simp add: new_events_def)
  show ?thesis
    by (simp add: t n o up de ledger_log_failure l)
qed

theorem transform_csv_empty_input_witness:
  "recognized ''lyon/3647/2022/location-3647-20220101.csv.gz'' \<and>
   zero_rows demo_lib ''lyon/3647/2022/location-3647-20220101.csv.gz''
      (demo_world [''lyon/3647/2022/location-3647-20220101.csv.gz'' \<mapsto> ''GZdatetime,parameter,value'']
         Map.empty (\<lambda>n. False)) \<and>
   objects (snd (transform_csv demo_lib ''lyon/3647/2022/location-3647-20220101.csv.gz'' ''lyon''
      ''3647'' ''2022''
      (demo_world [''lyon/3647/2022/location-3647-20220101.csv.gz'' \<mapsto> ''GZdatetime,parameter,value'']
         Map.empty (\<lambda>n. False))))
     = [''lyon/3647/2022/location-3647-20220101.csv.gz'' \<mapsto> ''GZdatetime,parameter,value''] \<and>
   ledger (snd (transform_csv demo_lib ''lyon/3647/2022/location-3647-20220101.csv.gz'' ''lyon''
      ''3647'' ''2022''
      (demo_world [''lyon/3647/2022/location-3647-20220101.csv.gz'' \<mapsto> ''GZdatetime,parameter,value'']
         Map.empty (\<lambda>n. False))))
     = Some (''lyon/3647/2022/location-3647-20220101.csv.gz'' @ [CHR 0x0A])"
proof -
  let ?k = "''lyon/3647/2022/location-3647-20220101.csv.gz''"
  let ?w = "demo_world [?k \<mapsto> ''GZdatetime,parameter,value''] Map.empty (\<lambda>n. False)"
  have r: "recognized ?k"
    by (simp add: recognized_def endswith_def)
  have z: "zero_rows demo_lib ?k ?w"
    by (simp add: zero_rows_def endswith_def demo_world_def demo_lib_def)
  note t = transform_csv_empty_input [OF r z, of "''lyon''" "''3647''" "''2022''"]
  have "objects ?w = [?k \<mapsto> ''GZdatetime,parameter,value'']" "ledger_text ?w = []"
    by (simp_all add: demo_world_def ledger_text_def)
  with r z t show ?thesis by simp
qed

lemma upload_with_retry_files:
  "upload_with_retry path file retry delay w = (r, w1) \<Longrightarrow>
   \<forall>p. p \<noteq> FAILED_LOG \<longrightarrow> files w1 p = files w p"
  by (cases rule: upload_with_retry_cases [of retry path "file" delay w])
     (auto simp: log_failure_def)

lemma delete_object_files: "delete_object key w = (r, w1) \<Longrightarrow> files w1 = files w"
  by (auto simp: delete_object_def split: if_splits)

lemma files_delete_object [simp]: "files (snd (delete_object key w)) = files w"
  by (simp add: delete_object_def)

lemma download_file_files:
  "download_file key path w = (r, w1) \<Longrightarrow> \<forall>p. p \<noteq> path \<longrightarrow> files w1 p = files w p"
  by (auto simp: download_file_def split: if_splits option.splits)

lemma archive_and_widen_files:
  assumes "p \<noteq> FAILED_LOG" "p \<noteq> wide_path"
  shows "files (snd (archive_and_widen lib df file location_id csv_path wide_path
                       archive_file wide_file w)) p = files w p"
  using assms
  by (auto simp: archive_and_widen_def Let_def
      split: prod.splits sum.splits
      dest!: upload_with_retry_files delete_object_files)

lemma fetch_gz_files:
  assumes "p \<noteq> gz_path" "p \<noteq> csv_path"
  shows "files (snd (fetch_gz lib file gz_path csv_path w)) p = files w p"
  using assms
  by (auto simp: fetch_gz_def Let_def split: prod.splits sum.splits option.splits
      dest!: download_file_files)

lemma fetch_csv_files:
  assumes "p \<noteq> csv_path"
  shows "files (snd (fetch_csv lib file csv_path w)) p = files w p"
  using assms
  by (auto simp: fetch_csv_def Let_def split: prod.splits sum.splits option.splits
      dest!: download_file_files)

lemma files_remove_if_exists [simp]:
  "files (remove_if_exists path w) = (files w)(path := None)"
  by (auto simp: remove_if_exists_def)

lemma files_except_log:
  "p \<noteq> FAILED_LOG \<Longrightarrow> files (except_log file r) p = files (snd r) p"
  by (simp add: except_log_def log_failure_def split: prod.splits sum.splits)

lemma files_drawn [simp]: "files (drawn w) = files w"
  by (simp add: drawn_def)

lemma try_gz_files:
  assumes "p \<noteq> FAILED_LOG" "p \<noteq> gz_path" "p \<noteq> csv_path" "p \<noteq> wide_path"
  shows "files (snd (try_gz lib file location_id gz_path csv_path wide_path
                       archive_file wide_file w)) p = files w p"
proof (cases "fetch_gz lib file gz_path csv_path w")
  case (Pair r w1)
  have "files (snd (fetch_gz lib file gz_path csv_path w)) p = files w p"
    by (rule fetch_gz_files [OF assms(2) assms(3)])
  then have f: "files w1 p = files w p"
    by (simp add: Pair)
  show ?thesis
  proof (cases r)
    case (Inl e)
    then show ?thesis by (simp add: try_gz_def Pair f)
  next
    case (Inr df)
    then show ?thesis
      by (simp add: try_gz_def Pair f archive_and_widen_files [OF assms(1) assms(4)])
  qed
qed

lemma try_csv_files:
  assumes "p \<noteq> FAILED_LOG" "p \<noteq> csv_path" "p \<noteq> wide_path"
  shows "files (snd (try_csv lib file location_id csv_path wide_path
                       archive_file wide_file w)) p = files w p"
proof (cases "fetch_csv lib file csv_path w")
  case (Pair r w1)
  have "files (snd (fetch_csv lib file csv_path w)) p = files w p"
    by (rule fetch_csv_files [OF assms(2)])
  then have f: "files w1 p = files w p"
    by (simp add: Pair)
  show ?thesis
  proof (cases r)
    case (Inl e)
    then show ?thesis by (simp add: try_csv_def Pair f)
  next
    case (Inr df)
    then show ?thesis
      by (simp add: try_csv_def Pair f archive_and_widen_files [OF assms(1) assms(3)])
  qed
qed

lemma unit_try_files:
  assumes "p \<noteq> FAILED_LOG" "p \<noteq> csv_path_of w" "p \<noteq> wide_path_of w"
    and "endswith file ''csv.gz'' \<Longrightarrow> p \<noteq> gz_path_of w"
  shows "files (snd (unit_try lib file city location_id year w)) p = files w p"
proof (cases "endswith file ''csv.gz''")
  case True
  with assms(4) have g: "p \<noteq> gz_path_of w" by simp
  show ?thesis
    by (simp add: unit_try_def True try_gz_files [OF assms(1) g assms(2) assms(3)])
next
  case False
  show ?thesis
    by (simp add: unit_try_def False try_csv_files [OF assms(1) assms(2) assms(3)])
qed

text \<open>
  Claim C8.  After the unit has run on a recognised key, whatever happened in the try block,
  the scratch paths of the branch taken (the \<^verbatim>\<open>.csv\<close> and wide paths, and the
  \<^verbatim>\<open>.gz\<close> path for a compressed key) hold no file, and every local file other than
  the ledger that exists then existed before the call with the same content.
\<close>

theorem transform_csv_cleanup:
  assumes "recognized file"
  shows "files (snd (transform_csv lib file city location_id year w)) (csv_path_of w) = None \<and>
         files (snd (transform_csv lib file city location_id year w)) (wide_path_of w) = None \<and>
         (endswith file ''csv.gz'' \<longrightarrow>
            files (snd (transform_csv lib file city location_id year w)) (gz_path_of w) = None) \<and>
         (\<forall>p. p \<noteq> FAILED_LOG \<longrightarrow>
            files (snd (transform_csv lib file city location_id year w)) p = None \<or>
            files (snd (transform_csv lib file city location_id year w)) p = files w p)"
proof -
  let ?u = "unit_try lib file city location_id year w"
  have t: "snd (transform_csv lib file city location_id year w) = cleanup file w (except_log file ?u)"
    by (simp add: transform_csv_recognized [OF assms])
  have a: "files (cleanup file w (except_log file ?u)) (csv_path_of w) = None"
    and b: "files (cleanup file w (except_log file ?u)) (wide_path_of w) = None"
    and c: "endswith file ''csv.gz'' \<longrightarrow>
            files (cleanup file w (except_log file ?u)) (gz_path_of w) = None"
    by (simp_all add: cleanup_def)
  have d: "files (cleanup file w (except_log file ?u)) p = None \<or>
           files (cleanup file w (except_log file ?u)) p = files w p" if p: "p \<noteq> FAILED_LOG" for p
  proof (cases "p = csv_path_of w \<or> p = wide_path_of w \<or> (endswith file ''csv.gz'' \<and> p = gz_path_of w)")
    case True
    then show ?thesis by (auto simp: cleanup_def)
  next
    case False
    then have "files (snd ?u) p = files w p"
      by (intro unit_try_files [OF p]) auto
    with False p show ?thesis
      by (auto simp: cleanup_def files_except_log)
  qed
  show ?thesis
    unfolding t using a b c d by blast
qed

theorem transform_csv_cleanup_witness:
  "recognized ''lyon/3647/2022/location-3647-20220101.csv.gz'' \<and>
   endswith ''lyon/3647/2022/location-3647-20220101.csv.gz'' ''csv.gz'' \<and>
   files (snd (unit_try demo_lib ''lyon/3647/2022/location-3647-20220101.csv.gz'' ''lyon'' ''3647'' ''2022''
      (demo_world [''lyon/3647/2022/location-3647-20220101.csv.gz'' \<mapsto> ''GZh'' @ [CHR 0x0A] @ ''r'']
         [''/tmp/keep.txt'' \<mapsto> ''x''] (\<lambda>n. False))))
     (csv_path_of (demo_world [''lyon/3647/2022/location-3647-20220101.csv.gz'' \<mapsto> ''GZh'' @ [CHR 0x0A] @ ''r'']
         [''/tmp/keep.txt'' \<mapsto> ''x''] (\<lambda>n. False))) = Some (''h'' @ [CHR 0x0A] @ ''r'') \<and>
   files (snd (transform_csv demo_lib ''lyon/3647/2022/location-3647-20220101.csv.gz'' ''lyon'' ''3647'' ''2022''
      (demo_world [''lyon/3647/2022/location-3647-20220101.csv.gz'' \<mapsto> ''GZh'' @ [CHR 0x0A] @ ''r'']
         [''/tmp/keep.txt'' \<mapsto> ''x''] (\<lambda>n. False))))
     (csv_path_of (demo_world [''lyon/3647/2022/location-3647-20220101.csv.gz'' \<mapsto> ''GZh'' @ [CHR 0x0A] @ ''r'']
         [''/tmp/keep.txt'' \<mapsto> ''x''] (\<lambda>n. False))) = None \<and>
   files (snd (transform_csv demo_lib ''lyon/3647/2022/location-3647-20220101.csv.gz'' ''lyon'' ''3647'' ''2022''
      (demo_world [''lyon/3647/2022/location-3647-20220101.csv.gz'' \<mapsto> ''GZh'' @ [CHR 0x0A] @ ''r'']
         [''/tmp/keep.txt'' \<mapsto> ''x''] (\<lambda>n. False))))
     (wide_path_of (demo_world [''lyon/3647/2022/location-3647-20220101.csv.gz'' \<mapsto> ''GZh'' @ [CHR 0x0A] @ ''r'']
         [''/tmp/keep.txt'' \<mapsto> ''x''] (\<lambda>n. False))) = None \<and>
   files (snd (transform_csv demo_lib ''lyon/3647/2022/location-3647-20220101.csv.gz'' ''lyon'' ''3647'' ''2022''
      (demo_world [''lyon/3647/2022/location-3647-20220101.csv.gz'' \<mapsto> ''GZh'' @ [CHR 0x0A] @ ''r'']
         [''/tmp/keep.txt'' \<mapsto> ''x''] (\<lambda>n. False))))
     (gz_path_of (demo_world [''lyon/3647/2022/location-3647-20220101.csv.gz'' \<mapsto> ''GZh'' @ [CHR 0x0A] @ ''r'']
         [''/tmp/keep.txt'' \<mapsto> ''x''] (\<lambda>n. False))) = None \<and>
   files (snd (transform_csv demo_lib ''lyon/3647/2022/location-3647-20220101.csv.gz'' ''lyon'' ''3647'' ''2022''
      (demo_world [''lyon/3647/2022/location-3647-20220101.csv.gz'' \<mapsto> ''GZh'' @ [CHR 0x0A] @ ''r'']
         [''/tmp/keep.txt'' \<mapsto> ''x''] (\<lambda>n. False)))) ''/tmp/keep.txt'' = Some ''x''"
proof -
  let ?k = "''lyon/3647/2022/location-3647-20220101.csv.gz''"
  let ?w = "(demo_world [''lyon/3647/2022/location-3647-20220101.csv.gz'' \<mapsto> ''GZh'' @ [CHR 0x0A] @ ''r'']
         [''/tmp/keep.txt'' \<mapsto> ''x''] (\<lambda>n. False))"
  have r: "recognized ?k" and g: "endswith ?k ''csv.gz''"
    by (simp_all add: recognized_def endswith_def)
  have u: "files (snd (unit_try demo_lib ?k ''lyon'' ''3647'' ''2022'' ?w)) (csv_path_of ?w)
             = Some (''h'' @ [CHR 0x0A] @ ''r'')"
    by code_simp
  have k: "files (snd (transform_csv demo_lib ?k ''lyon'' ''3647'' ''2022'' ?w)) ''/tmp/keep.txt''
             \<noteq> None"
    by code_simp
  have l: "''/tmp/keep.txt'' \<noteq> FAILED_LOG" "files ?w ''/tmp/keep.txt'' = Some ''x''"
    by (simp_all add: FAILED_LOG_def demo_world_def)
  note t = transform_csv_cleanup [OF r, of demo_lib "''lyon''" "''3647''" "''2022''" ?w]
  from t have "files (snd (transform_csv demo_lib ?k ''lyon'' ''3647'' ''2022'' ?w)) ''/tmp/keep.txt'' = None \<or>
    files (snd (transform_csv demo_lib ?k ''lyon'' ''3647'' ''2022'' ?w)) ''/tmp/keep.txt'' = files ?w ''/tmp/keep.txt''"
    using l(1) by blast
  with k l(2) have "files (snd (transform_csv demo_lib ?k ''lyon'' ''3647'' ''2022'' ?w)) ''/tmp/keep.txt'' = Some ''x''"
    by auto
  with r g u t show ?thesis by blast
qed

lemma all_fail_iff: "all_fail fails c n \<longleftrightarrow> (\<forall>i<n. fails (c + i))"
proof -
  have "(\<forall>x\<in>{c..<c + n}. fails x) \<longleftrightarrow> (\<forall>i<n. fails (c + i))"
  proof
    assume a: "\<forall>x\<in>{c..<c + n}. fails x"
    show "\<forall>i<n. fails (c + i)"
    proof (intro allI impI)
      fix i assume "i < n"
      then have "c + i \<in> {c..<c + n}" by simp
      with a show "fails (c + i)" by blast
    qed
  next
    assume b: "\<forall>i<n. fails (c + i)"
    show "\<forall>x\<in>{c..<c + n}. fails x"
    proof
      fix x assume "x \<in> {c..<c + n}"
      then have "x - c < n" "c + (x - c) = x" by auto
      with b show "fails x" by metis
    qed
  qed
  then show ?thesis
    by (simp add: all_fail_def list_all_iff)
qed

lemma uploads_made_all: "(\<forall>i<n. fails (c + i)) \<Longrightarrow> uploads_made fails c n = n"
proof (induction n arbitrary: c)
  case 0
  show ?case by simp
next
  case (Suc n)
  from Suc.prems have f: "fails c" by (metis add_0_right zero_less_Suc)
  have "\<forall>i<n. fails (Suc c + i)"
  proof (intro allI impI)
    fix i assume "i < n"
    then have "Suc i < Suc n" by simp
    with Suc.prems have "fails (c + Suc i)" by blast
    then show "fails (Suc c + i)" by simp
  qed
  from Suc.IH [OF this] f show ?case by simp
qed

lemma uploads_made_first:
  "j < n \<Longrightarrow> (\<forall>i<j. fails (c + i)) \<Longrightarrow> \<not> fails (c + j) \<Longrightarrow> uploads_made fails c n = Suc j"
proof (induction j arbitrary: c n)
  case 0
  then obtain m where "n = Suc m" by (cases n) auto
  with 0 show ?case by simp
next
  case (Suc j)
  from Suc.prems(1) obtain m where n: "n = Suc m" and jm: "j < m" by (cases n) auto
  from Suc.prems(2) have f: "fails c" by (metis add_0_right zero_less_Suc)
  have a: "\<forall>i<j. fails (Suc c + i)"
  proof (intro allI impI)
    fix i assume "i < j"
    then have "Suc i < Suc j" by simp
    with Suc.prems(2) have "fails (c + Suc i)" by blast
    then show "fails (Suc c + i)" by simp
  qed
  from Suc.prems(3) have b: "\<not> fails (Suc c + j)" by simp
  from Suc.IH [OF jm a b] f n show ?case by simp
qed

lemma attempt_fails_present:
  "files w path \<noteq> None \<Longrightarrow> attempt_fails w path i = s3_fails w (s3_calls w + i)"
  by (auto simp: attempt_fails_def)

lemma upload_with_retry_run:
  assumes f: "files w path \<noteq> None"
  shows "s3_calls (snd (upload_with_retry path file 5 delay w))
           = s3_calls w + uploads_made (s3_fails w) (s3_calls w) 5"
    and "s3_fails (snd (upload_with_retry path file 5 delay w)) = s3_fails w"
    and "files (snd (upload_with_retry path file 5 delay w))
           = (if all_fail (s3_fails w) (s3_calls w) 5
              then (files w)(FAILED_LOG \<mapsto> ledger_text w @ file @ [CHR 0x0A]) else files w)"
proof -
  let ?goal = "s3_calls (snd (upload_with_retry path file 5 delay w))
           = s3_calls w + uploads_made (s3_fails w) (s3_calls w) 5 \<and>
     s3_fails (snd (upload_with_retry path file 5 delay w)) = s3_fails w \<and>
     files (snd (upload_with_retry path file 5 delay w))
           = (if all_fail (s3_fails w) (s3_calls w) 5
              then (files w)(FAILED_LOG \<mapsto> ledger_text w @ file @ [CHR 0x0A]) else files w)"
  have ?goal
  proof (cases rule: upload_with_retry_cases [of 5 path "file" delay w])
    case none
    then show ?thesis by simp
  next
    case (exhausted k)
    from exhausted(2) have a: "\<forall>i<5. s3_fails w (s3_calls w + i)"
      by (simp add: attempt_fails_present [OF f])
    then have af: "all_fail (s3_fails w) (s3_calls w) 5"
      by (simp add: all_fail_iff)
    from exhausted(1) have k: "k = 4" by simp
    show ?thesis
      by (simp add: exhausted(3) af uploads_made_all [OF a] k log_failure_def ledger_text_def)
  next
    case (uploaded j)
    from uploaded(2) have a: "\<forall>i<j. s3_fails w (s3_calls w + i)"
      by (simp add: attempt_fails_present [OF f])
    from uploaded(3) have b: "\<not> s3_fails w (s3_calls w + j)"
      by (simp add: attempt_fails_present [OF f])
    from uploaded(1) b have naf: "\<not> all_fail (s3_fails w) (s3_calls w) 5"
      by (auto simp: all_fail_iff)
    show ?thesis
      by (simp add: uploaded(4) naf uploads_made_first [OF uploaded(1) a b])
  qed
  then show "s3_calls (snd (upload_with_retry path file 5 delay w))
           = s3_calls w + uploads_made (s3_fails w) (s3_calls w) 5"
    and "s3_fails (snd (upload_with_retry path file 5 delay w)) = s3_fails w"
    and "files (snd (upload_with_retry path file 5 delay w))
           = (if all_fail (s3_fails w) (s3_calls w) 5
              then (files w)(FAILED_LOG \<mapsto> ledger_text w @ file @ [CHR 0x0A]) else files w)"
    by blast+
qed

lemma delete_object_run:
  "fst (delete_object key w) = (if s3_fails w (s3_calls w) then Inl ClientError else Inr ())"
  "s3_calls (snd (delete_object key w)) = Suc (s3_calls w)"
  "s3_fails (snd (delete_object key w)) = s3_fails w"
  by (simp_all add: delete_object_def)

lemma ledger_text_cong:
  "files w1 FAILED_LOG = files w FAILED_LOG \<Longrightarrow> ledger_text w1 = ledger_text w"
  by (simp add: ledger_text_def)

lemma ledger_text_log_failure:
  "ledger_text (log_failure file w) = ledger_text w @ file @ [CHR 0x0A]"
  by (simp add: ledger_text_def log_failure_def)

lemma ledger_text_upload_with_retry:
  assumes "files w path \<noteq> None"
  shows "ledger_text (snd (upload_with_retry path file 5 delay w))
           = ledger_text w @ (if all_fail (s3_fails w) (s3_calls w) 5 then file @ [CHR 0x0A] else [])"
  by (simp add: ledger_text_def upload_with_retry_run(3) [OF assms])

lemma archive_and_widen_ledger:
  assumes c: "files v csv_path \<noteq> None" and ne: "\<not> df_empty lib df"
    and wl: "wide_path \<noteq> FAILED_LOG"
    and d1: "d1 = s3_calls v + uploads_made (s3_fails v) (s3_calls v) 5"
    and d2: "d2 = Suc d1 + uploads_made (s3_fails v) (Suc d1) 5"
  shows "ledger_text (except_log file
           (archive_and_widen lib df file location_id csv_path wide_path archive_file wide_file v))
         = ledger_text v @
           (if all_fail (s3_fails v) (s3_calls v) 5 then archive_file @ [CHR 0x0A] else []) @
           (if s3_fails v d1 then file @ [CHR 0x0A]
            else case reshape lib df location_id of
                   Inl e \<Rightarrow> file @ [CHR 0x0A]
                 | Inr wide \<Rightarrow>
                     (if all_fail (s3_fails v) (Suc d1) 5 then wide_file @ [CHR 0x0A] else []) @
                     (if s3_fails v d2 then file @ [CHR 0x0A] else []))"
proof -
  define w1 where "w1 = snd (upload_with_retry csv_path archive_file 5 2 v)"
  have u1: "upload_with_retry csv_path archive_file 5 2 v = (Inr (), w1)"
    using upload_with_retry_returns [of csv_path archive_file 5 2 v]
    by (simp add: w1_def prod_eq_iff)
  have c1: "s3_calls w1 = d1" and f1: "s3_fails w1 = s3_fails v"
    by (simp_all add: w1_def d1 upload_with_retry_run [OF c])
  have l1: "ledger_text w1 = ledger_text v @
      (if all_fail (s3_fails v) (s3_calls v) 5 then archive_file @ [CHR 0x0A] else [])"
    by (simp add: w1_def ledger_text_upload_with_retry [OF c])
  obtain r2 w2 where del1: "delete_object file w1 = (r2, w2)"
    by (cases "delete_object file w1") simp
  have r2: "r2 = (if s3_fails v d1 then Inl ClientError else Inr ())"
    using delete_object_run(1) [of "file" w1] by (simp add: del1 c1 f1)
  have c2: "s3_calls w2 = Suc d1" and f2: "s3_fails w2 = s3_fails v"
    using delete_object_run(2,3) [of "file" w1] by (simp_all add: del1 c1 f1)
  have fw2: "files w2 = files w1"
    using files_delete_object [of "file" w1] by (simp add: del1)
  have l2: "ledger_text w2 = ledger_text w1"
    by (rule ledger_text_cong) (simp add: fw2)
  show ?thesis
  proof (cases "s3_fails v d1")
    case True
    then show ?thesis
      by (simp add: archive_and_widen_def ne u1 del1 r2 except_log_def ledger_text_log_failure l2 l1)
  next
    case nd1: False
    show ?thesis
    proof (cases "reshape lib df location_id")
      case (Inl e)
      then show ?thesis
        by (simp add: archive_and_widen_def ne u1 del1 r2 nd1 except_log_def
            ledger_text_log_failure l2 l1)
    next
      case (Inr wide)
      define w3 where "w3 = w2\<lparr>files := (files w2)(wide_path \<mapsto> to_csv lib wide)\<rparr>"
      have p3: "files w3 wide_path \<noteq> None"
        by (simp add: w3_def)
      have c3: "s3_calls w3 = Suc d1" and f3: "s3_fails w3 = s3_fails v"
        by (simp_all add: w3_def c2 f2)
      have l3: "ledger_text w3 = ledger_text w2"
        using wl by (intro ledger_text_cong) (simp add: w3_def)
      define w4 where "w4 = snd (upload_with_retry wide_path wide_file 5 2 w3)"
      have u2: "upload_with_retry wide_path wide_file 5 2 w3 = (Inr (), w4)"
        using upload_with_retry_returns [of wide_path wide_file 5 2 w3]
        by (simp add: w4_def prod_eq_iff)
      have c4: "s3_calls w4 = d2" and f4: "s3_fails w4 = s3_fails v"
        by (simp_all add: w4_def d2 upload_with_retry_run [OF p3] c3 f3)
      have l4: "ledger_text w4 = ledger_text w3 @
          (if all_fail (s3_fails v) (Suc d1) 5 then wide_file @ [CHR 0x0A] else [])"
        by (simp add: w4_def ledger_text_upload_with_retry [OF p3] c3 f3)
      obtain r5 w5 where del2: "delete_object file w4 = (r5, w5)"
        by (cases "delete_object file w4") simp
      have r5: "r5 = (if s3_fails v d2 then Inl ClientError else Inr ())"
        using delete_object_run(1) [of "file" w4] by (simp add: del2 c4 f4)
      have fw5: "files w5 = files w4"
        using files_delete_object [of "file" w4] by (simp add: del2)
      have l5: "ledger_text w5 = ledger_text w4"
        by (rule ledger_text_cong) (simp add: fw5)
      have "archive_and_widen lib df file location_id csv_path wide_path archive_file wide_file v
              = (r5, w5)"
        by (simp add: archive_and_widen_def ne u1 del1 r2 nd1 Inr w3_def [symmetric] u2 del2)
      then show ?thesis
        by (simp add: except_log_def r5 Inr nd1 ledger_text_log_failure l5 l4 l3 l2 l1)
    qed
  qed
qed

lemma fetch_gz_run:
  assumes g: "endswith file ''csv.gz''" and gl: "gz_path \<noteq> FAILED_LOG" and cl: "csv_path \<noteq> FAILED_LOG"
  shows "case source_frame lib file w of
           Inl e \<Rightarrow> \<exists>e' v. fetch_gz lib file gz_path csv_path (drawn w) = (Inl e', v) \<and>
                      files v FAILED_LOG = files w FAILED_LOG
         | Inr df \<Rightarrow> \<exists>v. fetch_gz lib file gz_path csv_path (drawn w) = (Inr df, v) \<and>
                      files v FAILED_LOG = files w FAILED_LOG \<and> files v csv_path \<noteq> None \<and>
                      s3_calls v = Suc (s3_calls w) \<and> s3_fails v = s3_fails w"
  using gl cl
  by (auto simp: source_frame_def g fetch_gz_def download_file_def drawn_def Let_def
      split: option.splits sum.splits)

lemma fetch_csv_run:
  assumes g: "\<not> endswith file ''csv.gz''" and cl: "csv_path \<noteq> FAILED_LOG"
  shows "case source_frame lib file w of
           Inl e \<Rightarrow> \<exists>e' v. fetch_csv lib file csv_path (drawn w) = (Inl e', v) \<and>
                      files v FAILED_LOG = files w FAILED_LOG
         | Inr df \<Rightarrow> \<exists>v. fetch_csv lib file csv_path (drawn w) = (Inr df, v) \<and>
                      files v FAILED_LOG = files w FAILED_LOG \<and> files v csv_path \<noteq> None \<and>
                      s3_calls v = Suc (s3_calls w) \<and> s3_fails v = s3_fails w"
  using cl
  by (auto simp: source_frame_def g fetch_csv_def download_file_def drawn_def Let_def
      split: option.splits sum.splits)

lemma after_fetch_ledger_text:
  assumes fl: "files v FAILED_LOG = files w FAILED_LOG" and c: "files v csv_path \<noteq> None"
    and sc: "s3_calls v = Suc (s3_calls w)" and sf: "s3_fails v = s3_fails w"
    and wl: "wide_path \<noteq> FAILED_LOG"
  shows "ledger_text (except_log file
           (archive_and_widen lib df file location_id csv_path wide_path
              (archive_key city location_id year file) (wide_key city location_id year file) v))
         = ledger_text w @
           (if df_empty lib df then file @ [CHR 0x0A]
            else targets_logged lib df file city location_id year w @
                 (if later_step_raises lib df location_id w then file @ [CHR 0x0A] else []))"
proof (cases "df_empty lib df")
  case True
  have "ledger_text v = ledger_text w"
    by (rule ledger_text_cong) (rule fl)
  with True show ?thesis
    by (simp add: archive_and_widen_def except_log_def ledger_text_log_failure)
next
  case False
  have d1: "first_delete_at w = s3_calls v + uploads_made (s3_fails v) (s3_calls v) 5"
    by (simp add: first_delete_at_def sc sf)
  have d2: "second_delete_at w
              = Suc (first_delete_at w) + uploads_made (s3_fails v) (Suc (first_delete_at w)) 5"
    by (simp add: second_delete_at_def sf)
  have lv: "ledger_text v = ledger_text w"
    by (rule ledger_text_cong) (rule fl)
  note archive_and_widen_ledger [OF c False wl d1 d2, of "file" location_id
      "archive_key city location_id year file" "wide_key city location_id year file"]
  then show ?thesis
    by (simp add: False lv sc sf targets_logged_def later_step_raises_def split: sum.splits)
qed

lemma ledger_text_except_unit_try:
  "ledger_text (except_log file (unit_try lib file city location_id year w)) =
     ledger_text w @
       (case source_frame lib file w of
          Inl e \<Rightarrow> file @ [CHR 0x0A]
        | Inr df \<Rightarrow>
            if df_empty lib df then file @ [CHR 0x0A]
            else targets_logged lib df file city location_id year w @
                 (if later_step_raises lib df location_id w then file @ [CHR 0x0A] else []))"
proof (cases "endswith file ''csv.gz''")
  case g: True
  note run = fetch_gz_run [OF g scratch_not_log(1) scratch_not_log(2), of lib w w w]
  show ?thesis
  proof (cases "source_frame lib file w")
    case (Inl e)
    with run obtain e' v where
      f: "fetch_gz lib file (gz_path_of w) (csv_path_of w) (drawn w) = (Inl e', v)"
      and fl: "files v FAILED_LOG = files w FAILED_LOG"
      by auto
    have "ledger_text v = ledger_text w"
      by (rule ledger_text_cong) (rule fl)
    then show ?thesis
      by (simp add: unit_try_def g try_gz_def f except_log_def ledger_text_log_failure Inl)
  next
    case (Inr df)
    with run obtain v where
      f: "fetch_gz lib file (gz_path_of w) (csv_path_of w) (drawn w) = (Inr df, v)"
      and fl: "files v FAILED_LOG = files w FAILED_LOG" and c: "files v (csv_path_of w) \<noteq> None"
      and sc: "s3_calls v = Suc (s3_calls w)" and sf: "s3_fails v = s3_fails w"
      by auto
    show ?thesis
      by (simp add: unit_try_def g try_gz_def f Inr
          after_fetch_ledger_text [OF fl c sc sf scratch_not_log(3)])
  qed
next
  case g: False
  note run = fetch_csv_run [OF g scratch_not_log(2), of lib w w]
  show ?thesis
  proof (cases "source_frame lib file w")
    case (Inl e)
    with run obtain e' v where
      f: "fetch_csv lib file (csv_path_of w) (drawn w) = (Inl e', v)"
      and fl: "files v FAILED_LOG = files w FAILED_LOG"
      by auto
    have "ledger_text v = ledger_text w"
      by (rule ledger_text_cong) (rule fl)
    then show ?thesis
      by (simp add: unit_try_def g try_csv_def f except_log_def ledger_text_log_failure Inl)
  next
    case (Inr df)
    with run obtain v where
      f: "fetch_csv lib file (csv_path_of w) (drawn w) = (Inr df, v)"
      and fl: "files v FAILED_LOG = files w FAILED_LOG" and c: "files v (csv_path_of w) \<noteq> None"
      and sc: "s3_calls v = Suc (s3_calls w)" and sf: "s3_fails v = s3_fails w"
      by auto
    show ?thesis
      by (simp add: unit_try_def g try_csv_def f Inr
          after_fetch_ledger_text [OF fl c sc sf scratch_not_log(3)])
  qed
qed

lemma ledger_of_text: "ledger_text w = t \<Longrightarrow> t \<noteq> [] \<Longrightarrow> ledger w = Some t"
  by (auto simp: ledger_def ledger_text_def split: option.splits)




section \<open>The retry driver: properties\<close>

lemma retry_attempts_first:
  "retry_attempts lib (Suc n) failed_file failed_location_id failed_year w =
     (True, snd (transform_csv lib (strip failed_file) ''lyon'' failed_location_id failed_year w))"
proof (cases "transform_csv lib (strip failed_file) ''lyon'' failed_location_id failed_year w")
  case (Pair r w1)
  with transform_csv_returns [of lib "strip failed_file" "''lyon''" failed_location_id failed_year w]
  have "r = Inr ()" by simp
  with Pair show ?thesis by simp
qed

lemma retry_attempts_five:
  "retry_attempts lib 5 failed_file failed_location_id failed_year w =
     (True, snd (transform_csv lib (strip failed_file) ''lyon'' failed_location_id failed_year w))"
proof -
  have "(5::nat) = Suc 4" by simp
  then show ?thesis by (simp only: retry_attempts_first)
qed

lemma retry_each_Cons:
  "failed_key_parts failed_file = Inr (failed_location_id, failed_year) \<Longrightarrow>
   retry_each lib (failed_file # rest) still_failed w =
     retry_each lib rest still_failed
       (snd (transform_csv lib (strip failed_file) ''lyon'' failed_location_id failed_year w))"
  by (simp add: retry_attempts_five)

lemma retry_each_still_failed:
  "retry_each lib keys still_failed w = (Inr residue, w1) \<Longrightarrow> residue = still_failed"
proof (induction keys arbitrary: w)
  case Nil
  then show ?case by simp
next
  case (Cons failed_file rest)
  show ?case
  proof (cases "failed_key_parts failed_file")
    case (Inl e)
    with Cons.prems show ?thesis by simp
  next
    case (Inr parts)
    obtain failed_location_id failed_year where p: "parts = (failed_location_id, failed_year)"
      by (cases parts)
    from Inr p have "failed_key_parts failed_file = Inr (failed_location_id, failed_year)"
      by simp
    from Cons.prems [unfolded retry_each_Cons [OF this]] show ?thesis
      by (rule Cons.IH)
  qed
qed

lemma retry_failed_files_empties:
  assumes "retry_failed_files lib w = (Inr (), w1)"
  shows "ledger w1 = Some []"
proof (cases "files w FAILED_LOG")
  case None
  with assms show ?thesis
    by (simp add: retry_failed_files_def read_log_failure_def)
next
  case (Some t)
  obtain r w2 where e: "retry_each lib (map strip (readlines t)) [] w = (r, w2)"
    by (cases "retry_each lib (map strip (readlines t)) [] w")
  show ?thesis
  proof (cases r)
    case (Inl x)
    with assms Some e show ?thesis
      by (simp add: retry_failed_files_def read_log_failure_def)
  next
    case (Inr residue)
    with e have "residue = []"
      by (intro retry_each_still_failed [of lib _ "[]" w residue w2]) simp
    with assms Some e Inr show ?thesis
      by (auto simp: retry_failed_files_def read_log_failure_def rewrite_log_def ledger_def)
  qed
qed

text \<open>
  Claim C1.  A retry pass is to keep in the ledger exactly the keys that still fail.  It
  does not: the unit never raises, so the first of the five attempts counts as a success
  whatever happened inside it, no key reaches \<^verbatim>\<open>still_failed\<close>, and the final rewrite
  leaves the ledger empty.  Here the ledger holds one key and the store refuses every
  request: the try block ends in an exception, the unit appends the key to the ledger once
  more and returns, the pass makes this one attempt only, returns normally, and the ledger
  is empty afterwards.
\<close>

theorem retry_failed_files_drops_failing_key:
  "fst (unit_try demo_lib ''lyon/3647/2022/location-3647-20220101.csv.gz'' ''lyon'' ''3647'' ''2022''
     (demo_world [''lyon/3647/2022/location-3647-20220101.csv.gz'' \<mapsto> ''GZh'' @ [CHR 0x0A] @ ''r'']
        [''/tmp/failed_files.txt'' \<mapsto> ''lyon/3647/2022/location-3647-20220101.csv.gz'' @ [CHR 0x0A]]
        (\<lambda>n. True))) = Inl ClientError \<and>
   ledger (snd (transform_csv demo_lib ''lyon/3647/2022/location-3647-20220101.csv.gz'' ''lyon'' ''3647'' ''2022''
     (demo_world [''lyon/3647/2022/location-3647-20220101.csv.gz'' \<mapsto> ''GZh'' @ [CHR 0x0A] @ ''r'']
        [''/tmp/failed_files.txt'' \<mapsto> ''lyon/3647/2022/location-3647-20220101.csv.gz'' @ [CHR 0x0A]]
        (\<lambda>n. True))))
     = Some (''lyon/3647/2022/location-3647-20220101.csv.gz'' @ [CHR 0x0A] @
             ''lyon/3647/2022/location-3647-20220101.csv.gz'' @ [CHR 0x0A]) \<and>
   fst (retry_failed_files demo_lib
     (demo_world [''lyon/3647/2022/location-3647-20220101.csv.gz'' \<mapsto> ''GZh'' @ [CHR 0x0A] @ ''r'']
        [''/tmp/failed_files.txt'' \<mapsto> ''lyon/3647/2022/location-3647-20220101.csv.gz'' @ [CHR 0x0A]]
        (\<lambda>n. True))) = Inr () \<and>
   new_events
     (demo_world [''lyon/3647/2022/location-3647-20220101.csv.gz'' \<mapsto> ''GZh'' @ [CHR 0x0A] @ ''r'']
        [''/tmp/failed_files.txt'' \<mapsto> ''lyon/3647/2022/location-3647-20220101.csv.gz'' @ [CHR 0x0A]]
        (\<lambda>n. True))
     (snd (retry_failed_files demo_lib
     (demo_world [''lyon/3647/2022/location-3647-20220101.csv.gz'' \<mapsto> ''GZh'' @ [CHR 0x0A] @ ''r'']
        [''/tmp/failed_files.txt'' \<mapsto> ''lyon/3647/2022/location-3647-20220101.csv.gz'' @ [CHR 0x0A]]
        (\<lambda>n. True))))
     = [Download ''lyon/3647/2022/location-3647-20220101.csv.gz'' ''/tmp/temp_u.gz'' False] \<and>
   ledger (snd (retry_failed_files demo_lib
     (demo_world [''lyon/3647/2022/location-3647-20220101.csv.gz'' \<mapsto> ''GZh'' @ [CHR 0x0A] @ ''r'']
        [''/tmp/failed_files.txt'' \<mapsto> ''lyon/3647/2022/location-3647-20220101.csv.gz'' @ [CHR 0x0A]]
        (\<lambda>n. True)))) = Some []"
  by code_simp



lemma split_not_Nil: "split s sep \<noteq> []"
  by (induction s) (auto split: list.splits)

lemma split_piece: "sep \<notin> set a \<Longrightarrow> split (a @ sep # s) sep = a # split s sep"
  by (induction a) auto

lemma split_first_piece: "sep \<notin> set a \<Longrightarrow> \<exists>t ts. split (a @ r) sep = (a @ t) # ts"
proof (induction a)
  case Nil
  obtain t ts where "split r sep = t # ts"
    using split_not_Nil [of r sep] by (cases "split r sep") auto
  then show ?case by simp
next
  case (Cons c a)
  then obtain t ts where "split (a @ r) sep = (a @ t) # ts" by auto
  with Cons.prems show ?case by auto
qed

lemma failed_key_parts_dashes:
  assumes "CHR ''-'' \<notin> set pre" "CHR ''-'' \<notin> set location_id" "CHR ''-'' \<notin> set year"
    and "length year = 4"
  shows "failed_key_parts (pre @ ''-'' @ location_id @ ''-'' @ year @ rest) = Inr (location_id, year)"
proof -
  from split_first_piece [OF assms(3), of rest] obtain t ts where
    y: "split (year @ rest) CHR ''-'' = (year @ t) # ts" by blast
  have "split (pre @ ''-'' @ location_id @ ''-'' @ year @ rest) CHR ''-''
          = pre # location_id # (year @ t) # ts"
    using split_piece [OF assms(1), of "location_id @ ''-'' @ year @ rest"]
      split_piece [OF assms(2), of "year @ rest"] y
    by simp
  then show ?thesis
    by (simp add: failed_key_parts_def assms(4))
qed




section \<open>The target keys: properties\<close>

lemma replace_Nil: "old \<noteq> [] \<Longrightarrow> replace [] old new = []"
  by (subst replace.simps) simp

lemma replace_skip:
  "old \<noteq> [] \<Longrightarrow> take (length old) (c # s) \<noteq> old \<Longrightarrow>
   replace (c # s) old new = c # replace s old new"
  by (subst replace.simps) simp

lemma replace_hit:
  "old \<noteq> [] \<Longrightarrow> replace (old @ s) old new = new @ replace s old new"
  by (subst replace.simps) simp

text \<open>Without an occurrence of \<open>old\<close> nothing is replaced.\<close>

lemma replace_none:
  "old \<noteq> [] \<Longrightarrow> (\<forall>i. take (length old) (drop i s) \<noteq> old) \<Longrightarrow> replace s old new = s"
proof (induction s)
  case Nil
  then show ?case by (simp add: replace_Nil)
next
  case (Cons c s)
  from Cons.prems(2) have "take (length old) (drop 0 (c # s)) \<noteq> old" by blast
  then have h: "take (length old) (c # s) \<noteq> old" by simp
  have "\<forall>i. take (length old) (drop i s) \<noteq> old"
  proof
    fix i
    from Cons.prems(2) have "take (length old) (drop (Suc i) (c # s)) \<noteq> old" by blast
    then show "take (length old) (drop i s) \<noteq> old" by simp
  qed
  from Cons.IH [OF Cons.prems(1) this] replace_skip [OF Cons.prems(1) h] show ?case by simp
qed

text \<open>With \<open>old\<close> occurring at the end only, the end is replaced.\<close>

lemma replace_suffix_only:
  "old \<noteq> [] \<Longrightarrow>
   (\<forall>i. take (length old) (drop i (stem @ old)) = old \<longrightarrow> i = length stem) \<Longrightarrow>
   replace (stem @ old) old new = stem @ new"
proof (induction stem)
  case Nil
  from replace_hit [OF Nil(1), of "[]" new] show ?case
    by (simp add: replace_Nil [OF Nil(1)])
next
  case (Cons c stem)
  have h: "take (length old) (c # stem @ old) \<noteq> old"
  proof
    assume "take (length old) (c # stem @ old) = old"
    then have "take (length old) (drop 0 ((c # stem) @ old)) = old" by simp
    with Cons.prems(2) have "0 = length (c # stem)" by blast
    then show False by simp
  qed
  have "\<forall>i. take (length old) (drop i (stem @ old)) = old \<longrightarrow> i = length stem"
  proof (intro allI impI)
    fix i assume "take (length old) (drop i (stem @ old)) = old"
    then have "take (length old) (drop (Suc i) ((c # stem) @ old)) = old" by simp
    with Cons.prems(2) have "Suc i = length (c # stem)" by blast
    then show "i = length stem" by simp
  qed
  from Cons.IH [OF Cons.prems(1) this] replace_skip [OF Cons.prems(1) h] show ?case by simp
qed

lemma basename_after_slash:
  "CHR ''/'' \<notin> set fname \<Longrightarrow> basename (dir @ ''/'' @ fname) = fname"
proof -
  assume a: "CHR ''/'' \<notin> set fname"
  have "takeWhile (\<lambda>c. c \<noteq> CHR ''/'') (rev fname @ CHR ''/'' # rev dir) = rev fname"
    using a by (subst takeWhile_append2) auto
  then show ?thesis by (simp add: basename_def)
qed

lemma path_join_dir:
  "CHR ''/'' \<notin> set fname \<Longrightarrow> path_join (dir @ ''/'') fname = dir @ ''/'' @ fname"
  by (cases fname) (auto simp: path_join_def)

text \<open>
  On a file name that ends in \<^verbatim>\<open>.csv.gz\<close> or in \<^verbatim>\<open>.csv\<close> and in which
  \<^verbatim>\<open>.csv.gz\<close> occurs nowhere but at the end, the targets are the ones of the convention.
\<close>

lemma target_keys_regular:
  assumes s: "CHR ''/'' \<notin> set stem"
    and e: "ext = ''.csv.gz'' \<or> ext = ''.csv''"
    and o: "\<forall>i. take 7 (drop i (stem @ ext)) = ''.csv.gz'' \<longrightarrow> i + 7 = length (stem @ ext)"
  shows "archive_key location location_id year
           (location @ ''/'' @ location_id @ ''/'' @ year @ ''/'' @ stem @ ext)
         = location @ ''/archive/'' @ location_id @ ''/'' @ year @ ''/'' @ stem @ ''.csv''"
    and "wide_key location location_id year
           (location @ ''/'' @ location_id @ ''/'' @ year @ ''/'' @ stem @ ext)
         = location @ ''/wide/'' @ location_id @ ''/'' @ year @ ''/'' @ stem @ ''.csv''"
proof -
  from s e have f: "CHR ''/'' \<notin> set (stem @ ext)" by auto
  have len: "length ''.csv.gz'' = 7" by simp
  have b: "basename (location @ ''/'' @ location_id @ ''/'' @ year @ ''/'' @ stem @ ext) = stem @ ext"
    using basename_after_slash [OF f, of "location @ ''/'' @ location_id @ ''/'' @ year"] by simp
  have r: "replace (stem @ ext) ''.csv.gz'' ''.csv'' = stem @ ''.csv''"
  proof (cases "ext = ''.csv.gz''")
    case True
    have "\<forall>i. take (length ''.csv.gz'') (drop i (stem @ ''.csv.gz'')) = ''.csv.gz'' \<longrightarrow> i = length stem"
    proof (intro allI impI)
      fix i assume "take (length ''.csv.gz'') (drop i (stem @ ''.csv.gz'')) = ''.csv.gz''"
      then have "take 7 (drop i (stem @ ext)) = ''.csv.gz''"
        by (simp only: len True)
      with o have "i + 7 = length (stem @ ext)" by blast
      then show "i = length stem" by (simp add: True)
    qed
    from replace_suffix_only [OF _ this, of "''.csv''"] show ?thesis
      by (simp add: True)
  next
    case False
    with e have c: "ext = ''.csv''" by simp
    have "\<forall>i. take (length ''.csv.gz'') (drop i (stem @ ''.csv'')) \<noteq> ''.csv.gz''"
    proof (intro allI notI)
      fix i assume h: "take (length ''.csv.gz'') (drop i (stem @ ''.csv'')) = ''.csv.gz''"
      then have "take 7 (drop i (stem @ ext)) = ''.csv.gz''"
        by (simp only: len c)
      with o have "i + 7 = length (stem @ ext)" by blast
      then have l: "i + 7 = length (stem @ ''.csv'')" by (simp only: c)
      then have "length (drop i (stem @ ''.csv'')) = 7" by simp
      with h have d: "drop i (stem @ ''.csv'') = ''.csv.gz''" by (simp only: len take_all order_refl)
      have "last (drop i (stem @ ''.csv'')) = last (stem @ ''.csv'')"
        using l by (intro last_drop) simp
      with d show False by simp
    qed
    from replace_none [OF _ this, of "''.csv''"] show ?thesis
      by (simp add: c)
  qed
  have t: "CHR ''/'' \<notin> set (stem @ ''.csv'')" using s by simp
  let ?f = "location @ ''/'' @ location_id @ ''/'' @ year @ ''/'' @ stem @ ext"
  have n: "file_name_csv ?f = stem @ ''.csv''"
    by (simp only: file_name_csv_def b r)
  have "archive_key location location_id year ?f
          = path_join ((location @ ''/archive/'' @ location_id @ ''/'' @ year) @ ''/'') (stem @ ''.csv'')"
    by (simp only: archive_key_def n) simp
  also have "\<dots> = (location @ ''/archive/'' @ location_id @ ''/'' @ year) @ ''/'' @ stem @ ''.csv''"
    by (rule path_join_dir [OF t])
  finally show "archive_key location location_id year ?f
         = location @ ''/archive/'' @ location_id @ ''/'' @ year @ ''/'' @ stem @ ''.csv''"
    by simp
  have "wide_key location location_id year ?f
          = path_join ((location @ ''/wide/'' @ location_id @ ''/'' @ year) @ ''/'') (stem @ ''.csv'')"
    by (simp only: wide_key_def n) simp
  also have "\<dots> = (location @ ''/wide/'' @ location_id @ ''/'' @ year) @ ''/'' @ stem @ ''.csv''"
    by (rule path_join_dir [OF t])
  finally show "wide_key location location_id year ?f
         = location @ ''/wide/'' @ location_id @ ''/'' @ year @ ''/'' @ stem @ ''.csv''"
    by simp
qed

text \<open>
  Claim C9.  The archive and the wide upload are to target the file name of the key without
  its compression suffix, under \<^verbatim>\<open>{location}/archive/{location_id}/{year}/\<close> and
  \<^verbatim>\<open>{location}/wide/{location_id}/{year}/\<close>.  The unit replaces every
  \<^verbatim>\<open>.csv.gz\<close> of the file name and not the one at its end only: for the file name
  \<^verbatim>\<open>location-3647-20220101.csv.gz.csv.gz\<close> the targets end in
  \<^verbatim>\<open>location-3647-20220101.csv.csv\<close>, which is where the uploads go, and nothing is
  stored under the name without the suffix, \<^verbatim>\<open>location-3647-20220101.csv.gz.csv\<close>.
\<close>

theorem target_keys_inner_suffix:
  "archive_key ''lyon'' ''3647'' ''2022'' ''lyon/3647/2022/location-3647-20220101.csv.gz.csv.gz''
     = ''lyon/archive/3647/2022/location-3647-20220101.csv.csv'' \<and>
   wide_key ''lyon'' ''3647'' ''2022'' ''lyon/3647/2022/location-3647-20220101.csv.gz.csv.gz''
     = ''lyon/wide/3647/2022/location-3647-20220101.csv.csv'' \<and>
   objects (snd (transform_csv demo_lib ''lyon/3647/2022/location-3647-20220101.csv.gz.csv.gz''
      ''lyon'' ''3647'' ''2022''
      (demo_world [''lyon/3647/2022/location-3647-20220101.csv.gz.csv.gz'' \<mapsto> ''GZh'' @ [CHR 0x0A] @ ''r'']
        Map.empty (\<lambda>n. False))))
     ''lyon/archive/3647/2022/location-3647-20220101.csv.csv'' = Some (''h'' @ [CHR 0x0A] @ ''r'') \<and>
   objects (snd (transform_csv demo_lib ''lyon/3647/2022/location-3647-20220101.csv.gz.csv.gz''
      ''lyon'' ''3647'' ''2022''
      (demo_world [''lyon/3647/2022/location-3647-20220101.csv.gz.csv.gz'' \<mapsto> ''GZh'' @ [CHR 0x0A] @ ''r'']
        Map.empty (\<lambda>n. False))))
     ''lyon/wide/3647/2022/location-3647-20220101.csv.csv''
       = Some (''h,3647'' @ [CHR 0x0A] @ ''r,3647'' @ [CHR 0x0A]) \<and>
   objects (snd (transform_csv demo_lib ''lyon/3647/2022/location-3647-20220101.csv.gz.csv.gz''
      ''lyon'' ''3647'' ''2022''
      (demo_world [''lyon/3647/2022/location-3647-20220101.csv.gz.csv.gz'' \<mapsto> ''GZh'' @ [CHR 0x0A] @ ''r'']
        Map.empty (\<lambda>n. False))))
     ''lyon/archive/3647/2022/location-3647-20220101.csv.gz.csv'' = None \<and>
   objects (snd (transform_csv demo_lib ''lyon/3647/2022/location-3647-20220101.csv.gz.csv.gz''
      ''lyon'' ''3647'' ''2022''
      (demo_world [''lyon/3647/2022/location-3647-20220101.csv.gz.csv.gz'' \<mapsto> ''GZh'' @ [CHR 0x0A] @ ''r'']
        Map.empty (\<lambda>n. False))))
     ''lyon/wide/3647/2022/location-3647-20220101.csv.gz.csv'' = None"
  by code_simp

end
